theory Spec2Isabelle
  imports Complex_Main "HOL-Library.Log_Nat" "HOL-Library.Sublist"
begin

section \<open>Python values\<close>

subsection \<open>Strings\<close>

text \<open>
  A Python \<open>str\<close> is a sequence of Unicode code points and \<open>len\<close> counts code points,
  so a string is a list of code point numbers. \<open>ascii\<close> writes an ASCII literal.
\<close>

type_synonym pystr = "nat list"

definition ascii :: "string \<Rightarrow> pystr" where
  "ascii s = map of_char s"

definition SPACE :: nat where "SPACE = 32"
definition NEWLINE :: nat where "NEWLINE = 10"
definition SLASH :: nat where "SLASH = 47"
definition FULL_BLOCK :: nat where "FULL_BLOCK = 9608"
definition LIGHT_SHADE :: nat where "LIGHT_SHADE = 9617"
definition LOWER_HALF :: nat where "LOWER_HALF = 9604"
definition UPPER_HALF :: nat where "UPPER_HALF = 9600"

text \<open>\<open>s * n\<close>: repetition, empty for \<open>n \<le> 0\<close>.\<close>

definition py_repeat :: "pystr \<Rightarrow> int \<Rightarrow> pystr" where
  "py_repeat s n = concat (replicate (nat n) s)"

text \<open>\<open>s[:k]\<close>: a negative \<open>k\<close> counts from the end, and the bound is clipped at 0.\<close>

definition py_prefix :: "pystr \<Rightarrow> int \<Rightarrow> pystr" where
  "py_prefix s k = (if 0 \<le> k then take (nat k) s else take (length s - nat (- k)) s)"

text \<open>
  \<open>str.center\<close>, \<open>str.ljust\<close> and \<open>str.rjust\<close> pad with spaces and return the string
  unchanged when it is already as long as the width. When the padding is odd, CPython's
  \<open>center\<close> puts the extra space on the left exactly when the width is odd too.
\<close>

definition center :: "pystr \<Rightarrow> int \<Rightarrow> pystr" where
  "center s width =
     (if width \<le> int (length s) then s
      else let marg = nat (width - int (length s));
               left = marg div 2 + (if odd marg \<and> odd width then 1 else 0)
           in replicate left SPACE @ s @ replicate (marg - left) SPACE)"

definition ljust :: "pystr \<Rightarrow> int \<Rightarrow> pystr" where
  "ljust s width = s @ replicate (nat (width - int (length s))) SPACE"

definition rjust :: "pystr \<Rightarrow> int \<Rightarrow> pystr" where
  "rjust s width = replicate (nat (width - int (length s))) SPACE @ s"

text \<open>\<open>s.split(c)\<close> and \<open>c.join(words)\<close> for a one-character separator.\<close>

fun split_sep :: "nat \<Rightarrow> pystr \<Rightarrow> pystr list" where
  "split_sep c [] = [[]]"
| "split_sep c (x # xs) =
     (if x = c then [] # split_sep c xs
      else (case split_sep c xs of [] \<Rightarrow> [[x]] | w # ws \<Rightarrow> (x # w) # ws))"

fun join_sep :: "nat \<Rightarrow> pystr list \<Rightarrow> pystr" where
  "join_sep c [] = []"
| "join_sep c [w] = w"
| "join_sep c (w # ws) = w @ c # join_sep c ws"

text \<open>\<open>str(n)\<close> for an integer, and the format \<open>{:02d}\<close>, whose zero padding counts the sign.\<close>

function digits :: "nat \<Rightarrow> pystr" where
  "digits n = (if n < 10 then [48 + n] else digits (n div 10) @ [48 + n mod 10])"
  by pat_completeness auto
termination
  by (relation "measure (\<lambda>n. n)") auto

definition py_str_int :: "int \<Rightarrow> pystr" where
  "py_str_int i = (if i < 0 then 45 # digits (nat (- i)) else digits (nat i))"

definition format_02d :: "int \<Rightarrow> pystr" where
  "format_02d i =
     (if i < 0 then 45 # digits (nat (- i))
      else replicate (2 - length (digits (nat i))) 48 @ digits (nat i))"

subsection \<open>Floats\<close>

text \<open>
  A Python \<open>float\<close> is an IEEE 754 binary64 number. A finite one is modelled by the
  rational it denotes, and every arithmetic operation returns the exact result rounded
  to the nearest binary64 number, ties to the even significand: \<open>fl\<close>. The quantum of
  \<open>x\<close> is \<open>2 ^ (e - 52)\<close> for the binade \<open>e = \<lfloor>log\<^sub>2 \<bar>x\<bar>\<rfloor>\<close>, and \<open>2 ^ - 1074\<close> in the
  subnormal range. Infinities and NaN are outside the model: no magnitude considered
  below comes near \<open>2 ^ 1024\<close>.
\<close>

definition round_half_even :: "rat \<Rightarrow> int" where
  "round_half_even x =
     (let n = \<lfloor>x\<rfloor>; r = x - of_int n
      in if r < 1 / 2 then n else if 1 / 2 < r then n + 1 else if even n then n else n + 1)"

definition binade :: "rat \<Rightarrow> int" where
  "binade x = (if 1 \<le> x then bitlen \<lfloor>x\<rfloor> - 1 else - bitlen (\<lceil>1 / x\<rceil> - 1))"

definition fl :: "rat \<Rightarrow> rat" where
  "fl x = (if x = 0 then 0
           else let q = 2 powi (max (binade \<bar>x\<bar>) (- 1022) - 52)
                in of_int (round_half_even (x / q)) * q)"

text \<open>\<open>int(x)\<close> truncates a float towards zero.\<close>

definition py_int :: "rat \<Rightarrow> int" where
  "py_int x = (if 0 \<le> x then \<lfloor>x\<rfloor> else \<lceil>x\<rceil>)"

text \<open>
  \<open>round(x, ndigits)\<close> rounds the exact value of \<open>x\<close> to \<open>ndigits\<close> decimals, ties to
  even, and returns the nearest float to that decimal.
\<close>

definition py_round :: "rat \<Rightarrow> nat \<Rightarrow> rat" where
  "py_round x ndigits = fl (of_int (round_half_even (x * 10 ^ ndigits)) / 10 ^ ndigits)"

subsection \<open>Exceptions\<close>

datatype py_error =
    ZeroDivisionError
  | IndexError
  | PygameError
  | OSError
  | MutagenError
  | AttributeError

text \<open>\<open>a / b\<close> on integers: the correctly rounded quotient, or \<open>ZeroDivisionError\<close>.\<close>

definition int_truediv :: "int \<Rightarrow> int \<Rightarrow> py_error + rat" where
  "int_truediv a b = (if b = 0 then Inl ZeroDivisionError else Inr (fl (of_int a / of_int b)))"

definition py_index :: "'a list \<Rightarrow> nat \<Rightarrow> py_error + 'a" where
  "py_index xs i = (if i < length xs then Inr (xs ! i) else Inl IndexError)"

definition py_store :: "'a list \<Rightarrow> nat \<Rightarrow> 'a \<Rightarrow> py_error + 'a list" where
  "py_store xs i v = (if i < length xs then Inr (xs[i := v]) else Inl IndexError)"

definition py_then :: "py_error + 'a \<Rightarrow> ('a \<Rightarrow> py_error + 'b) \<Rightarrow> py_error + 'b" where
  "py_then r f = (case r of Inl e \<Rightarrow> Inl e | Inr a \<Rightarrow> f a)"

section \<open>The player\<close>

subsection \<open>Module constants\<close>

definition box_width :: nat where
  "box_width = 46"

type_synonym display_line = "pystr \<times> bool"

definition i_lines_initial :: "display_line list" where
  "i_lines_initial =
     [([], True),
      (py_repeat [LIGHT_SHADE] (int box_width), True),
      ([], True),
      (ascii ''00:00 '' @ py_repeat [SPACE] (int box_width - 12) @ ascii '' 00:00'', True),
      ([], True),
      (map (\<lambda>c. if c = CHR ''#'' then FULL_BLOCK else of_char c)
         ''######    ##  ##                ##      # ####'', True),
      (map (\<lambda>c. if c = CHR ''#'' then FULL_BLOCK else of_char c)
         ''######    ##  ##    ######    ######      ##  '', True),
      (map (\<lambda>c. if c = CHR ''#'' then FULL_BLOCK else of_char c)
         ''######    ##  ##                ##      #### #'', True),
      ([], True),
      (ascii ''escape    pause       F8        F9      pg_dwn'', True)]"

definition play1 :: pystr where
  "play1 = [FULL_BLOCK, FULL_BLOCK, LOWER_HALF, LOWER_HALF, SPACE, SPACE]"
definition play2 :: pystr where
  "play2 = [FULL_BLOCK, FULL_BLOCK, FULL_BLOCK, FULL_BLOCK, FULL_BLOCK, FULL_BLOCK]"
definition play3 :: pystr where
  "play3 = [FULL_BLOCK, FULL_BLOCK, UPPER_HALF, UPPER_HALF, SPACE, SPACE]"

definition paus1 :: pystr where
  "paus1 = [FULL_BLOCK, FULL_BLOCK, SPACE, SPACE, FULL_BLOCK, FULL_BLOCK]"
definition paus2 :: pystr where
  "paus2 = [FULL_BLOCK, FULL_BLOCK, SPACE, SPACE, FULL_BLOCK, FULL_BLOCK]"
definition paus3 :: pystr where
  "paus3 = [FULL_BLOCK, FULL_BLOCK, SPACE, SPACE, FULL_BLOCK, FULL_BLOCK]"

subsection \<open>Transport symbol\<close>

text \<open>
  \<open>pause_symbol\<close> and \<open>play_symbol\<close> read the three rows, then store the three new rows.
  Reading or storing outside the list raises \<open>IndexError\<close>; all three reads precede the
  first store.
\<close>

definition pause_symbol :: "display_line list \<Rightarrow> py_error + display_line list" where
  "pause_symbol i_lines =
     py_then (py_index i_lines 6) (\<lambda>r6.
     py_then (py_index i_lines 7) (\<lambda>r7.
     py_then (py_index i_lines 8) (\<lambda>r8.
       let line1 = take 10 (fst r6) @ paus1 @ drop 16 (fst r6);
           line2 = take 10 (fst r7) @ paus2 @ drop 16 (fst r7);
           line3 = take 10 (fst r8) @ paus3 @ drop 16 (fst r8)
       in py_then (py_store i_lines 6 (line1, True)) (\<lambda>l6.
          py_then (py_store l6 7 (line2, True)) (\<lambda>l7.
          py_store l7 8 (line3, True))))))"

definition play_symbol :: "display_line list \<Rightarrow> py_error + display_line list" where
  "play_symbol i_lines =
     py_then (py_index i_lines 6) (\<lambda>r6.
     py_then (py_index i_lines 7) (\<lambda>r7.
     py_then (py_index i_lines 8) (\<lambda>r8.
       let line1 = take 10 (fst r6) @ play1 @ drop 16 (fst r6);
           line2 = take 10 (fst r7) @ play2 @ drop 16 (fst r7);
           line3 = take 10 (fst r8) @ play3 @ drop 16 (fst r8)
       in py_then (py_store i_lines 6 (line1, True)) (\<lambda>l6.
          py_then (py_store l6 7 (line2, True)) (\<lambda>l7.
          py_store l7 8 (line3, True))))))"

subsection \<open>Layout\<close>

record terminal_size =
  columns :: nat
  lines :: nat

text \<open>The ellipsis marker, \<open>term\<close> in the source.\<close>

definition term_marker :: pystr where
  "term_marker = ascii ''...''"

text \<open>The body of the loop of \<open>interface\<close>: one display line, fitted and centred.\<close>

definition interface_line :: "nat \<Rightarrow> display_line \<Rightarrow> pystr" where
  "interface_line width tupl =
     (let line = fst tupl;
          line_len = length line;
          line = (if line_len > min box_width width
                  then py_prefix line (int (min box_width width) - int (length term_marker)) @ term_marker
                  else line);
          formatted_line = (if snd tupl then center line (int (min box_width width))
                            else ljust line (int (min box_width width)))
      in center formatted_line (int width))"

fun interface_loop :: "nat \<Rightarrow> display_line list \<Rightarrow> pystr \<Rightarrow> pystr" where
  "interface_loop width [] string = string"
| "interface_loop width (tupl # lns) string =
     interface_loop width lns (string @ interface_line width tupl @ [NEWLINE])"

text \<open>
  \<open>int(height/2) - int(len(lines)/2)\<close>: each half is the float quotient, truncated.
\<close>

definition interface :: "terminal_size \<Rightarrow> display_line list \<Rightarrow> pystr" where
  "interface sz lns =
     (let width = columns sz;
          height = lines sz;
          string = py_repeat [NEWLINE]
                     (py_int (fl (of_nat height / 2)) - py_int (fl (of_nat (length lns) / 2)))
      in interface_loop width lns string)"

text \<open>\<open>percentage * max_width\<close> converts the integer to a float and rounds the product.\<close>

definition bar_parser :: "rat \<Rightarrow> int \<Rightarrow> pystr" where
  "bar_parser percentage max_width =
     (let bar_width = py_int (fl (percentage * fl (of_int max_width)))
      in py_repeat [FULL_BLOCK] bar_width @ py_repeat [LIGHT_SHADE] (max_width - bar_width))"

definition song_info_parser :: "int \<Rightarrow> int \<Rightarrow> rat \<Rightarrow> int \<Rightarrow> pystr" where
  "song_info_parser current_secs total_secs volume max_width =
     (let current_mins = current_secs div 60;
          current_secs = current_secs mod 60;
          total_mins = total_secs div 60;
          total_secs = total_secs mod 60;
          volume = py_int (fl (volume * fl 100));
          volume = (if volume mod 10 = 9 then volume + 1 else volume);
          current_time = format_02d current_mins @ ascii '':'' @ format_02d current_secs;
          total_time = format_02d total_mins @ ascii '':'' @ format_02d total_secs;
          volume = ascii ''Volume: '' @ py_str_int volume @ ascii ''%''
      in current_time @ ascii '' / '' @ total_time
         @ rjust volume (max_width - int (length current_time) - int (length total_time) - 3))"

subsection \<open>Track selector\<close>

definition strip_path_from_filename :: "pystr \<Rightarrow> pystr" where
  "strip_path_from_filename path =
     (if SLASH \<in> set path then last (split_sep SLASH path) else path)"

text \<open>\<open>strip_filename_from_path\<close> reads \<open>os.getcwd()\<close>, passed as \<open>cwd\<close>.\<close>

definition strip_filename_from_path :: "pystr \<Rightarrow> pystr \<Rightarrow> pystr" where
  "strip_filename_from_path cwd path =
     (if SLASH \<notin> set path then cwd
      else let words = split_sep SLASH path;
               words = butlast words;
               new_path = join_sep SLASH words
           in new_path @ [SLASH])"

text \<open>\<open>os.path.join\<close> of two components, as \<open>posixpath\<close> defines it.\<close>

definition os_path_join :: "pystr \<Rightarrow> pystr \<Rightarrow> pystr" where
  "os_path_join a b =
     (if b \<noteq> [] \<and> hd b = SLASH then b
      else if a = [] \<or> last a = SLASH then a @ b
      else a @ [SLASH] @ b)"

text \<open>
  What one handler reads from outside the program: the directory listing, the working
  directory, the random source, the mixer, the metadata library and the terminal.
\<close>

record world =
  os_listdir :: "pystr \<Rightarrow> py_error + pystr list"
  os_getcwd :: pystr
  random_source :: nat
  mixer_loadable :: "pystr \<Rightarrow> bool"
  mixer_get_busy :: bool
  mixer_get_pos :: int
  mixer_get_volume :: rat
  mutagen_length :: "pystr \<Rightarrow> py_error + rat"
  os_get_terminal_size :: terminal_size

text \<open>The loop of \<open>random_file\<close> that collects the music files.\<close>

fun music_files_loop :: "pystr \<Rightarrow> pystr list \<Rightarrow> pystr list \<Rightarrow> pystr list" where
  "music_files_loop old_filename [] music_files = music_files"
| "music_files_loop old_filename (file # files) music_files =
     music_files_loop old_filename files
       (if (suffix (ascii ''.mp3'') file \<or> suffix (ascii ''.wav'') file
            \<or> suffix (ascii ''.ogg'') file) \<and> file \<noteq> old_filename
        then music_files @ [file] else music_files)"

text \<open>\<open>random.choice\<close>: \<open>IndexError\<close> on an empty sequence, else the element at a random index.\<close>

definition random_choice :: "nat \<Rightarrow> 'a list \<Rightarrow> py_error + 'a" where
  "random_choice r seq = (if seq = [] then Inl IndexError else Inr (seq ! (r mod length seq)))"

text \<open>
  \<open>except IndexError or ValueError\<close> catches \<open>IndexError\<close> and raises \<open>pygame.error\<close>.
\<close>

definition random_file :: "world \<Rightarrow> pystr \<Rightarrow> py_error + pystr" where
  "random_file w path =
     (let old_filename = strip_path_from_filename path;
          stripped_path = strip_filename_from_path (os_getcwd w) path
      in py_then (os_listdir w stripped_path) (\<lambda>files.
           let music_files = music_files_loop old_filename files []
           in (case random_choice (random_source w) music_files of
                 Inl e \<Rightarrow> (if e = IndexError then Inl PygameError else Inl e)
               | Inr chosen \<Rightarrow> Inr (os_path_join stripped_path chosen))))"

subsection \<open>Player state and effects\<close>

datatype effect =
    MusicLoad pystr
  | MusicPlay
  | MusicPause
  | MusicUnpause
  | MusicRewind
  | MusicStop
  | MusicSetVolume rat
  | Clear
  | Print pystr
  | CursorShow

record player =
  m_file :: pystr
  i_lines :: "display_line list"
  effects :: "effect list"

definition emit :: "effect \<Rightarrow> player \<Rightarrow> player" where
  "emit e st = st\<lparr>effects := effects st @ [e]\<rparr>"

definition update_bar :: "world \<Rightarrow> player \<Rightarrow> py_error + pystr" where
  "update_bar w st =
     py_then (mutagen_length w (m_file st)) (\<lambda>audio_info_length.
       let curr_time = py_int (fl (of_int (mixer_get_pos w) / 1000));
           total_time = py_int audio_info_length
       in py_then (int_truediv curr_time total_time) (\<lambda>percentage.
            Inr (bar_parser percentage (int box_width))))"

definition update_song_info :: "world \<Rightarrow> player \<Rightarrow> py_error + pystr" where
  "update_song_info w st =
     py_then (mutagen_length w (m_file st)) (\<lambda>audio_info_length.
       let curr_time = py_int (fl (of_int (mixer_get_pos w) / 1000));
           total_time = py_int audio_info_length
       in Inr (song_info_parser curr_time total_time (mixer_get_volume w) (int box_width)))"

definition redraw :: "world \<Rightarrow> player \<Rightarrow> player" where
  "redraw w st =
     emit (Print (interface (os_get_terminal_size w) (i_lines st) @ [NEWLINE])) (emit Clear st)"

definition exit_gracefully :: "player \<Rightarrow> player" where
  "exit_gracefully st = emit CursorShow (emit Clear (emit MusicStop st))"

subsection \<open>Statements\<close>

text \<open>
  A statement runs on the player state and either completes or raises; what it changed
  before raising stays changed. \<open>run_all\<close> runs statements in order up to the first raise.
\<close>

type_synonym stmt = "player \<Rightarrow> (py_error + unit) \<times> player"

fun run_all :: "stmt list \<Rightarrow> stmt" where
  "run_all [] st = (Inr (), st)"
| "run_all (s # ss) st =
     (case s st of (Inl e, st') \<Rightarrow> (Inl e, st') | (Inr u, st') \<Rightarrow> run_all ss st')"

definition assign_random_file :: "world \<Rightarrow> stmt" where
  "assign_random_file w st =
     (case random_file w (m_file st) of
        Inl e \<Rightarrow> (Inl e, st)
      | Inr f \<Rightarrow> (Inr (), st\<lparr>m_file := f\<rparr>))"

definition music_load :: "world \<Rightarrow> stmt" where
  "music_load w st =
     (if mixer_loadable w (m_file st) then (Inr (), emit (MusicLoad (m_file st)) st)
      else (Inl PygameError, emit (MusicLoad (m_file st)) st))"

definition music_call :: "effect \<Rightarrow> stmt" where
  "music_call e st = (Inr (), emit e st)"

text \<open>\<open>i_lines[k] = (value, flag)\<close>: the value is computed first, then stored.\<close>

definition assign_line :: "nat \<Rightarrow> (player \<Rightarrow> py_error + pystr) \<Rightarrow> bool \<Rightarrow> stmt" where
  "assign_line k rhs flag st =
     (case rhs st of
        Inl e \<Rightarrow> (Inl e, st)
      | Inr v \<Rightarrow> (case py_store (i_lines st) k (v, flag) of
                    Inl e \<Rightarrow> (Inl e, st)
                  | Inr ls \<Rightarrow> (Inr (), st\<lparr>i_lines := ls\<rparr>)))"

definition call_symbol :: "(display_line list \<Rightarrow> py_error + display_line list) \<Rightarrow> stmt" where
  "call_symbol f st =
     (case f (i_lines st) of
        Inl e \<Rightarrow> (Inl e, st)
      | Inr ls \<Rightarrow> (Inr (), st\<lparr>i_lines := ls\<rparr>))"

definition call_redraw :: "world \<Rightarrow> stmt" where
  "call_redraw w st = (Inr (), redraw w st)"

subsection \<open>Key handlers\<close>

text \<open>The \<open>try\<close> block shared by the page-down key and the end-of-track event.\<close>

definition play_random_file :: "world \<Rightarrow> stmt" where
  "play_random_file w =
     run_all
       [assign_random_file w,
        music_load w,
        music_call MusicPlay,
        assign_line 0 (\<lambda>st. Inr (strip_path_from_filename (m_file st))) False,
        assign_line 2 (update_bar w) True,
        assign_line 4 (update_song_info w) True,
        call_symbol pause_symbol,
        call_redraw w]"

definition on_page_down :: "world \<Rightarrow> stmt" where
  "on_page_down w st =
     (case play_random_file w st of
        (Inl e, st') \<Rightarrow>
          (if e = PygameError
           then run_all
                  (music_call MusicRewind
                   # (if \<not> mixer_get_busy w
                      then [music_call MusicUnpause,
                            assign_line 2 (update_bar w) True,
                            assign_line 4 (update_song_info w) True,
                            call_symbol pause_symbol,
                            call_redraw w]
                      else [])) st'
           else (Inl e, st'))
      | (Inr u, st') \<Rightarrow> (Inr u, st'))"

definition on_pause :: "world \<Rightarrow> stmt" where
  "on_pause w =
     run_all
       ((if mixer_get_busy w
         then [music_call MusicPause, call_symbol play_symbol]
         else [music_call MusicUnpause, call_symbol pause_symbol])
        @ [call_redraw w])"

text \<open>The literal \<open>0.10000000\<close> is the float nearest to one tenth.\<close>

definition f8_new_vol :: "rat \<Rightarrow> rat" where
  "f8_new_vol curr_vol = fl (py_round (py_round curr_vol 1) 8 - fl (1 / 10))"

definition f9_new_vol :: "rat \<Rightarrow> rat" where
  "f9_new_vol curr_vol = fl (py_round (py_round curr_vol 1) 8 + fl (1 / 10))"

definition on_f8 :: "world \<Rightarrow> stmt" where
  "on_f8 w =
     run_all
       [music_call (MusicSetVolume (f8_new_vol (mixer_get_volume w))),
        assign_line 4 (update_song_info w) True,
        call_redraw w]"

definition on_f9 :: "world \<Rightarrow> stmt" where
  "on_f9 w =
     run_all
       [music_call (MusicSetVolume (f9_new_vol (mixer_get_volume w))),
        assign_line 4 (update_song_info w) True,
        call_redraw w]"

subsection \<open>Event loops\<close>

datatype key = Esc | Pause | PageDown | F8 | F9 | OtherKey nat

datatype outcome = Waiting | Exited | Raised py_error

text \<open>
  \<open>keyboard_listener\<close> runs over the key events delivered so far, each with what the
  handler reads while it runs. An exception that leaves a handler ends the thread.
\<close>

fun keyboard_listener :: "(key \<times> world) list \<Rightarrow> (key \<Rightarrow> nat) \<Rightarrow> player \<Rightarrow> outcome \<times> player" where
  "keyboard_listener [] press_or_release st = (Waiting, st)"
| "keyboard_listener ((k, w) # events) press_or_release st =
     (let st = emit (Print (py_repeat [SPACE] 16 @ [13])) st;
          press_or_release = press_or_release(k := press_or_release k + 1)
      in if even (press_or_release k) then keyboard_listener events press_or_release st
         else if k = Esc then (Exited, exit_gracefully st)
         else (case (if k = Pause then on_pause w st
                     else if k = PageDown then on_page_down w st
                     else if k = F8 then on_f8 w st
                     else if k = F9 then on_f9 w st
                     else (Inr (), st)) of
                 (Inl e, st') \<Rightarrow> (Raised e, st')
               | (Inr u, st') \<Rightarrow> keyboard_listener events press_or_release st'))"

text \<open>The end-of-track handler: on \<open>pygame.error\<close> it does \<open>pass\<close>.\<close>

definition on_track_end :: "world \<Rightarrow> stmt" where
  "on_track_end w st =
     (case play_random_file w st of
        (Inl e, st') \<Rightarrow> (if e = PygameError then (Inr (), st') else (Inl e, st'))
      | (Inr u, st') \<Rightarrow> (Inr u, st'))"

fun infinite_queue :: "nat \<Rightarrow> (nat \<times> world) list \<Rightarrow> player \<Rightarrow> outcome \<times> player" where
  "infinite_queue event_type [] st = (Waiting, st)"
| "infinite_queue event_type ((event, w) # events) st =
     (if event = event_type
      then (case on_track_end w st of
              (Inl e, st') \<Rightarrow> (Raised e, st')
            | (Inr u, st') \<Rightarrow> infinite_queue event_type events st')
      else infinite_queue event_type events st)"

fun poll_interface :: "world list \<Rightarrow> player \<Rightarrow> outcome \<times> player" where
  "poll_interface [] st = (Waiting, st)"
| "poll_interface (w # ticks) st =
     (case run_all [assign_line 2 (update_bar w) True,
                    assign_line 4 (update_song_info w) True,
                    call_redraw w] st of
        (Inl e, st') \<Rightarrow> (Raised e, st')
      | (Inr u, st') \<Rightarrow> poll_interface ticks st')"

subsection \<open>The display lines the program can hold\<close>

text \<open>
  \<open>main\<close> prepends the title line before any thread starts; from then on the only
  writers of \<open>i_lines\<close> are the stores to slots 0, 2 and 4 and the two symbol rewrites.
\<close>

inductive panel_reachable :: "display_line list \<Rightarrow> bool" where
  initial: "panel_reachable ((title, False) # i_lines_initial)"
| store0: "panel_reachable ls \<Longrightarrow> py_store ls 0 (v, False) = Inr ls' \<Longrightarrow> panel_reachable ls'"
| store2: "panel_reachable ls \<Longrightarrow> py_store ls 2 (v, True) = Inr ls' \<Longrightarrow> panel_reachable ls'"
| store4: "panel_reachable ls \<Longrightarrow> py_store ls 4 (v, True) = Inr ls' \<Longrightarrow> panel_reachable ls'"
| pause: "panel_reachable ls \<Longrightarrow> pause_symbol ls = Inr ls' \<Longrightarrow> panel_reachable ls'"
| play: "panel_reachable ls \<Longrightarrow> play_symbol ls = Inr ls' \<Longrightarrow> panel_reachable ls'"

section \<open>Facts about the float model\<close>

lemma bitlen_ge1: "0 < n \<Longrightarrow> 1 \<le> bitlen n"
  using bitlen_eq_zero_iff[of n] bitlen_nonneg[of n] by linarith

lemma binade_lower_ge1:
  assumes "1 \<le> x"
  shows "2 powi (binade x) \<le> x"
proof -
  from assms have n: "0 < \<lfloor>x\<rfloor>" by simp
  from bitlen_bounds[OF n] have "2 ^ nat (bitlen \<lfloor>x\<rfloor> - 1) \<le> \<lfloor>x\<rfloor>" by simp
  then have "(of_int (2 ^ nat (bitlen \<lfloor>x\<rfloor> - 1)) :: rat) \<le> of_int \<lfloor>x\<rfloor>"
    by (simp only: of_int_le_iff)
  also have "\<dots> \<le> x" by simp
  finally have "(2::rat) ^ nat (bitlen \<lfloor>x\<rfloor> - 1) \<le> x" by simp
  then show ?thesis using assms bitlen_ge1[OF n] by (simp add: binade_def power_int_def)
qed

lemma binade_upper_ge1:
  assumes "1 \<le> x"
  shows "x < 2 powi (binade x + 1)"
proof -
  from assms have n: "0 < \<lfloor>x\<rfloor>" by simp
  from bitlen_bounds[OF n] have "\<lfloor>x\<rfloor> + 1 \<le> 2 ^ nat (bitlen \<lfloor>x\<rfloor>)" by simp
  then have "(of_int (\<lfloor>x\<rfloor> + 1) :: rat) \<le> of_int (2 ^ nat (bitlen \<lfloor>x\<rfloor>))"
    by (simp only: of_int_le_iff)
  moreover have "x < of_int (\<lfloor>x\<rfloor> + 1)" by linarith
  ultimately have "x < (2::rat) ^ nat (bitlen \<lfloor>x\<rfloor>)" by simp
  then show ?thesis using assms bitlen_ge1[OF n] by (simp add: binade_def power_int_def)
qed

lemma binade_lower_lt1:
  assumes "0 < x" "x < 1"
  shows "2 powi (binade x) \<le> x"
proof -
  define M where "M = \<lceil>1 / x\<rceil> - 1"
  from assms have "1 < 1 / x" by simp
  then have M: "0 < M" unfolding M_def by (simp add: less_ceiling_iff)
  from bitlen_bounds[OF M] have "M + 1 \<le> 2 ^ nat (bitlen M)" by simp
  then have "(of_int (M + 1) :: rat) \<le> of_int (2 ^ nat (bitlen M))"
    by (simp only: of_int_le_iff)
  moreover have "1 / x \<le> of_int (M + 1)" unfolding M_def by simp
  ultimately have "1 / x \<le> (2::rat) ^ nat (bitlen M)" by simp
  then have "1 \<le> x * 2 ^ nat (bitlen M)" using assms(1) by (simp add: field_simps)
  then have "inverse ((2::rat) ^ nat (bitlen M)) \<le> x" by (simp add: field_simps)
  moreover have "binade x = - bitlen M" using assms by (simp add: binade_def M_def)
  ultimately show ?thesis using bitlen_ge1[OF M] by (simp add: power_int_def power_one_over[symmetric] inverse_eq_divide)
qed

lemma binade_upper_lt1:
  assumes "0 < x" "x < 1"
  shows "x < 2 powi (binade x + 1)"
proof -
  define M where "M = \<lceil>1 / x\<rceil> - 1"
  from assms have "1 < 1 / x" by simp
  then have M: "0 < M" unfolding M_def by (simp add: less_ceiling_iff)
  from bitlen_bounds[OF M] have "2 ^ nat (bitlen M - 1) \<le> M" by simp
  then have "(of_int (2 ^ nat (bitlen M - 1)) :: rat) \<le> of_int M"
    by (simp only: of_int_le_iff)
  then have "(2::rat) ^ nat (bitlen M - 1) \<le> of_int M" by simp
  moreover have "of_int M < 1 / x" unfolding M_def by linarith
  ultimately have "(2::rat) ^ nat (bitlen M - 1) < 1 / x" by (rule le_less_trans)
  then have "x * 2 ^ nat (bitlen M - 1) < 1" using assms(1) by (simp add: field_simps)
  then have lt: "x < inverse ((2::rat) ^ nat (bitlen M - 1))" by (simp add: field_simps)
  have b: "binade x = - bitlen M" using assms by (simp add: binade_def M_def)
  have "binade x + 1 \<le> 0" using b bitlen_ge1[OF M] by simp
  moreover have "nat (- (binade x + 1)) = nat (bitlen M - 1)" using b by simp
  ultimately show ?thesis using lt
    by (cases "binade x + 1 = 0") (simp_all add: power_int_def power_one_over[symmetric] inverse_eq_divide)
qed

lemma binade_bounds:
  assumes "0 < x"
  shows "2 powi (binade x) \<le> x" and "x < 2 powi (binade x + 1)"
  using assms binade_lower_ge1 binade_lower_lt1 binade_upper_ge1 binade_upper_lt1
  by (cases "1 \<le> x"; simp)+

lemma round_half_even_of_int: "round_half_even (of_int n) = n"
  by (simp add: round_half_even_def)

lemma round_half_even_le:
  assumes "x \<le> of_int n"
  shows "round_half_even x \<le> n"
proof (cases "x = of_int n")
  case True
  then show ?thesis by (simp add: round_half_even_of_int)
next
  case False
  with assms have "x < of_int n" by simp
  then have "\<lfloor>x\<rfloor> < n" by (simp add: floor_less_iff)
  then show ?thesis by (simp add: round_half_even_def Let_def)
qed

lemma round_half_even_nonneg: "0 \<le> x \<Longrightarrow> 0 \<le> round_half_even x"
  by (simp add: round_half_even_def Let_def)

lemma quantum_le:
  assumes "0 < a" and "a < 2 powi (53 + k)" and "- 1074 \<le> k"
  shows "max (binade a) (- 1022) - 52 \<le> k"
proof -
  have "2 powi (binade a) < (2::rat) powi (53 + k)"
    using binade_bounds(1)[OF assms(1)] assms(2) by (rule le_less_trans)
  then have "binade a < 53 + k"
    using power_int_increasing[of "53 + k" "binade a" "2::rat"] by (cases "binade a < 53 + k") auto
  with assms(3) show ?thesis by simp
qed

lemma scaled_int_div:
  assumes "d \<le> k"
  shows "of_int m * 2 powi k / 2 powi d = (of_int (m * 2 ^ nat (k - d)) :: rat)"
proof -
  have "(2::rat) powi k / 2 powi d = 2 powi (k - d)" by (simp add: power_int_diff)
  also have "\<dots> = 2 ^ nat (k - d)" using assms by (simp add: power_int_def)
  finally have e: "(2::rat) powi k / 2 powi d = 2 ^ nat (k - d)" .
  have "of_int m * 2 powi k / 2 powi d = (of_int m :: rat) * (2 powi k / 2 powi d)" by simp
  also have "\<dots> = of_int m * 2 ^ nat (k - d)" by (simp only: e)
  also have "\<dots> = of_int (m * 2 ^ nat (k - d))" by simp
  finally show ?thesis .
qed

lemma fl_exact:
  assumes "x = of_int m * 2 powi k" and "\<bar>m\<bar> < 2 ^ 53" and "- 1074 \<le> k"
  shows "fl x = x"
proof (cases "x = 0")
  case True
  then show ?thesis by (simp add: fl_def)
next
  case False
  define d where "d = max (binade \<bar>x\<bar>) (- 1022) - 52"
  have "\<bar>x\<bar> = of_int \<bar>m\<bar> * 2 powi k" using assms(1) by (simp add: abs_mult)
  also have "\<dots> < 2 ^ 53 * 2 powi k"
  proof -
    have "(of_int \<bar>m\<bar> :: rat) < of_int (2 ^ 53)" using assms(2) by (simp only: of_int_less_iff)
    then show ?thesis by (simp add: mult_strict_right_mono)
  qed
  also have "\<dots> = 2 powi (53 + k)" by (simp add: power_int_add)
  finally have "\<bar>x\<bar> < 2 powi (53 + k)" .
  with False assms(3) have d: "d \<le> k" unfolding d_def by (intro quantum_le) simp_all
  have xq: "x / 2 powi d = of_int (m * 2 ^ nat (k - d))"
    unfolding assms(1) by (rule scaled_int_div[OF d])
  have "of_int (round_half_even (x / 2 powi d)) * 2 powi d = x / 2 powi d * 2 powi d"
    by (simp only: xq round_half_even_of_int)
  also have "\<dots> = x" by simp
  finally have "of_int (round_half_even (x / 2 powi d)) * 2 powi d = x" .
  with False show ?thesis by (simp add: fl_def d_def Let_def)
qed

lemma fl_nonneg:
  assumes "0 \<le> x"
  shows "0 \<le> fl x"
  using assms by (simp add: fl_def Let_def round_half_even_nonneg)

lemma fl_le_repr:
  assumes "0 \<le> x" and "x \<le> of_int m * 2 powi k" and "m < 2 ^ 53" and "- 1074 \<le> k"
  shows "fl x \<le> of_int m * 2 powi k"
proof (cases "x = 0")
  case True
  then show ?thesis using assms by (simp add: fl_def)
next
  case False
  with assms(1) have pos: "0 < x" by simp
  define d where "d = max (binade \<bar>x\<bar>) (- 1022) - 52"
  define q :: rat where "q = 2 powi d"
  have q: "0 < q" by (simp add: q_def)
  have "of_int m * 2 powi k < (2::rat) ^ 53 * 2 powi k"
  proof -
    have "(of_int m :: rat) < of_int (2 ^ 53)" using assms(3) by (simp only: of_int_less_iff)
    then show ?thesis by (simp add: mult_strict_right_mono)
  qed
  also have "\<dots> = 2 powi (53 + k)" by (simp add: power_int_add)
  finally have "x < 2 powi (53 + k)" using assms(2) by simp
  with pos assms(4) have d: "d \<le> k" unfolding d_def by (intro quantum_le) simp_all
  have yq: "of_int m * 2 powi k / q = of_int (m * 2 ^ nat (k - d))"
    unfolding q_def by (rule scaled_int_div[OF d])
  have "x / q \<le> of_int m * 2 powi k / q" using assms(2) q by (simp add: divide_right_mono)
  then have "round_half_even (x / q) \<le> m * 2 ^ nat (k - d)"
    unfolding yq by (rule round_half_even_le)
  then have "(of_int (round_half_even (x / q)) :: rat) \<le> of_int (m * 2 ^ nat (k - d))"
    by (simp only: of_int_le_iff)
  then have "of_int (round_half_even (x / q)) * q \<le> of_int (m * 2 ^ nat (k - d)) * q"
    using q by (simp only: mult_le_cancel_right_pos)
  also have "of_int (m * 2 ^ nat (k - d)) * q = of_int m * 2 powi k / q * q"
    by (simp only: yq)
  also have "\<dots> = of_int m * 2 powi k" using q by simp
  finally show ?thesis using False by (simp add: fl_def d_def q_def Let_def)
qed

lemma fl_100: "fl 100 = 100"
  by code_simp

section \<open>Status line\<close>

text \<open>
  Claim C6, as stated: the status-line formatter \<open>song_info_parser\<close> rounds the displayed
  volume percentage so that a last digit of 9 goes up to the next multiple of 10; volume
  input 0.29 is displayed as 30\% and volume input 0.25 as 25\%.

  The percentage is \<open>int(volume * 100)\<close>, and the float product \<open>0.29 * 100\<close> is
  \<open>28.999999999999996\<close>, which truncates to 28: the line for volume input 0.29 shows
  28\%, not 30\%.
\<close>

theorem volume_display_029_counterexample:
  "song_info_parser 0 0 (fl (29 / 100)) 46
     = ascii ''00:00 / 00:00'' @ replicate 22 SPACE @ ascii ''Volume: 28%''
   \<and> song_info_parser 0 0 (fl (29 / 100)) 46
     \<noteq> ascii ''00:00 / 00:00'' @ replicate 22 SPACE @ ascii ''Volume: 30%''"
  by code_simp

text \<open>
  Claim C6, amended: the formatter truncates the float product \<open>volume * 100\<close> to an
  integer \<open>p\<close> and displays \<open>p + 1\<close> when the last digit of \<open>p\<close> is 9 and \<open>p\<close> otherwise,
  so the displayed percentage never ends in 9. Volume input 0.25 is displayed as 25\%,
  and volume input 0.296875 (the mixer's 38/128) as 30\%.
\<close>

theorem volume_display_rounding:
  "song_info_parser cs ts v w
     = format_02d (cs div 60) @ ascii '':'' @ format_02d (cs mod 60) @ ascii '' / ''
       @ format_02d (ts div 60) @ ascii '':'' @ format_02d (ts mod 60)
       @ rjust (ascii ''Volume: ''
                @ py_str_int (let p = py_int (fl (v * 100)) in if p mod 10 = 9 then p + 1 else p)
                @ ascii ''%'')
           (w - int (length (format_02d (cs div 60) @ ascii '':'' @ format_02d (cs mod 60)))
              - int (length (format_02d (ts div 60) @ ascii '':'' @ format_02d (ts mod 60))) - 3)
   \<and> (let p = py_int (fl (v * 100)) in if p mod 10 = 9 then p + 1 else p) mod 10 \<noteq> 9
   \<and> song_info_parser 0 0 (1 / 4) 46
       = ascii ''00:00 / 00:00'' @ replicate 22 SPACE @ ascii ''Volume: 25%''
   \<and> song_info_parser 0 0 (38 / 128) 46
       = ascii ''00:00 / 00:00'' @ replicate 22 SPACE @ ascii ''Volume: 30%''"
proof (intro conjI)
  show "song_info_parser cs ts v w
     = format_02d (cs div 60) @ ascii '':'' @ format_02d (cs mod 60) @ ascii '' / ''
       @ format_02d (ts div 60) @ ascii '':'' @ format_02d (ts mod 60)
       @ rjust (ascii ''Volume: ''
                @ py_str_int (let p = py_int (fl (v * 100)) in if p mod 10 = 9 then p + 1 else p)
                @ ascii ''%'')
           (w - int (length (format_02d (cs div 60) @ ascii '':'' @ format_02d (cs mod 60)))
              - int (length (format_02d (ts div 60) @ ascii '':'' @ format_02d (ts mod 60))) - 3)"
    by (simp only: song_info_parser_def Let_def fl_100 append_assoc)
  show "(let p = py_int (fl (v * 100)) in if p mod 10 = 9 then p + 1 else p) mod 10 \<noteq> 9"
    unfolding Let_def by presburger
  show "song_info_parser 0 0 (1 / 4) 46
       = ascii ''00:00 / 00:00'' @ replicate 22 SPACE @ ascii ''Volume: 25%''"
    by code_simp
  show "song_info_parser 0 0 (38 / 128) 46
       = ascii ''00:00 / 00:00'' @ replicate 22 SPACE @ ascii ''Volume: 30%''"
    by code_simp
qed

section \<open>Progress bar\<close>

lemma fl_of_int:
  assumes "\<bar>n\<bar> < 2 ^ 53"
  shows "fl (of_int n) = of_int n"
  using fl_exact[of "of_int n" n 0] assms by simp

lemma fl_le_of_int:
  assumes "0 \<le> x" and "x \<le> of_int n" and "n < 2 ^ 53"
  shows "fl x \<le> of_int n"
  using fl_le_repr[of x n 0] assms by simp

lemma py_repeat_single: "py_repeat [c] n = replicate (nat n) c"
  by (induction "nat n" arbitrary: n) (auto simp: py_repeat_def replicate_append_same)

lemma count_list_replicate: "count_list (replicate n c) d = (if c = d then n else 0)"
  by (induction n) auto

lemma bar_width_bounds:
  assumes "0 \<le> f" and "f \<le> 1" and "0 < w" and "w < 2 ^ 53"
  shows "py_int (fl (f * fl (of_int w))) = \<lfloor>fl (f * of_int w)\<rfloor>"
    and "0 \<le> \<lfloor>fl (f * of_int w)\<rfloor>" and "\<lfloor>fl (f * of_int w)\<rfloor> \<le> w"
proof -
  have w: "fl (of_int w) = of_int w" using assms(3,4) by (intro fl_of_int) simp
  have x0: "0 \<le> f * of_int w" using assms(1,3) by simp
  have "f * of_int w \<le> 1 * of_int w" using assms(2,3) by (intro mult_right_mono) simp_all
  then have x1: "f * of_int w \<le> of_int w" by simp
  have nonneg: "0 \<le> fl (f * of_int w)" using x0 by (rule fl_nonneg)
  have le: "fl (f * of_int w) \<le> of_int w" using x0 x1 assms(4) by (rule fl_le_of_int)
  show "py_int (fl (f * fl (of_int w))) = \<lfloor>fl (f * of_int w)\<rfloor>"
    using nonneg by (simp add: py_int_def w)
  show "0 \<le> \<lfloor>fl (f * of_int w)\<rfloor>" using nonneg by simp
  show "\<lfloor>fl (f * of_int w)\<rfloor> \<le> w" using le by (simp add: floor_le_iff)
qed

lemma round_half_even_ge:
  assumes "of_int n \<le> x"
  shows "n \<le> round_half_even x"
proof -
  from assms have "n \<le> \<lfloor>x\<rfloor>" by (simp add: le_floor_iff)
  then show ?thesis by (simp add: round_half_even_def Let_def)
qed

lemma fl_ge_of_int:
  assumes "of_int n \<le> x" and "0 \<le> n" and "x < 2 ^ 53"
  shows "of_int n \<le> fl x"
proof (cases "x = 0")
  case True
  then show ?thesis using assms by (simp add: fl_def)
next
  case False
  have "(0::rat) \<le> of_int n" using assms(2) by simp
  then have "0 \<le> x" using assms(1) by (rule order_trans)
  with False have pos: "0 < x" by simp
  define d where "d = max (binade \<bar>x\<bar>) (- 1022) - 52"
  define q :: rat where "q = 2 powi d"
  have q: "0 < q" by (simp add: q_def)
  have "x < 2 powi (53 + 0)" using assms(3) by (simp add: power_int_def)
  with pos have d: "d \<le> 0" unfolding d_def by (intro quantum_le) simp_all
  have "of_int n * 2 powi 0 / q = of_int (n * 2 ^ nat (0 - d))"
    unfolding q_def by (rule scaled_int_div[OF d])
  then have nq: "of_int n / q = of_int (n * 2 ^ nat (0 - d))" by simp
  have "of_int n / q \<le> x / q" using assms(1) q by (simp add: divide_right_mono)
  then have "n * 2 ^ nat (0 - d) \<le> round_half_even (x / q)"
    unfolding nq by (rule round_half_even_ge)
  then have "(of_int (n * 2 ^ nat (0 - d)) :: rat) \<le> of_int (round_half_even (x / q))"
    by (simp only: of_int_le_iff)
  then have "of_int (n * 2 ^ nat (0 - d)) * q \<le> of_int (round_half_even (x / q)) * q"
    using q by (simp only: mult_le_cancel_right_pos)
  moreover have "of_int (n * 2 ^ nat (0 - d)) * q = of_int n / q * q" by (simp only: nq)
  moreover have "of_int n / q * q = of_int n" using q by simp
  ultimately have "of_int n \<le> of_int (round_half_even (x / q)) * q" by simp
  then show ?thesis using False by (simp add: fl_def d_def q_def Let_def)
qed

lemma fl_floor_bounds:
  assumes "0 \<le> x" and "x \<le> of_int w" and "w < 2 ^ 53"
  shows "\<lfloor>x\<rfloor> \<le> \<lfloor>fl x\<rfloor>" and "\<lfloor>fl x\<rfloor> \<le> \<lfloor>x\<rfloor> + 1"
proof -
  have "(of_int w :: rat) < of_int (2 ^ 53)" using assms(3) by (simp only: of_int_less_iff)
  then have xlt: "x < 2 ^ 53" using assms(2) by simp
  have "of_int \<lfloor>x\<rfloor> \<le> fl x" using assms(1) xlt by (intro fl_ge_of_int) simp_all
  then show "\<lfloor>x\<rfloor> \<le> \<lfloor>fl x\<rfloor>" by (simp add: le_floor_iff)
  show "\<lfloor>fl x\<rfloor> \<le> \<lfloor>x\<rfloor> + 1"
  proof (cases "x = of_int \<lfloor>x\<rfloor>")
    case True
    have "\<bar>\<lfloor>x\<rfloor>\<bar> < 2 ^ 53" using assms(1) xlt by (simp add: floor_less_iff)
    then have "fl (of_int \<lfloor>x\<rfloor>) = of_int \<lfloor>x\<rfloor>" by (rule fl_of_int)
    with True have "fl x = of_int \<lfloor>x\<rfloor>" by simp
    then show ?thesis by simp
  next
    case False
    have "of_int \<lfloor>x\<rfloor> \<le> x" by (rule of_int_floor_le)
    moreover from False have "of_int \<lfloor>x\<rfloor> \<noteq> x" by (rule not_sym)
    ultimately have "of_int \<lfloor>x\<rfloor> < x" by (rule le_neq_trans)
    then have "of_int \<lfloor>x\<rfloor> < (of_int w :: rat)" using assms(2) by simp
    then have "\<lfloor>x\<rfloor> + 1 \<le> w" by simp
    then have lt: "\<lfloor>x\<rfloor> + 1 < 2 ^ 53" using assms(3) by (rule le_less_trans)
    have "x < of_int (\<lfloor>x\<rfloor> + 1)"
      using floor_less_iff[of x "\<lfloor>x\<rfloor> + 1"] by simp
    then have "x \<le> of_int (\<lfloor>x\<rfloor> + 1)" by (rule less_imp_le)
    with assms(1) have "fl x \<le> of_int (\<lfloor>x\<rfloor> + 1)" using lt by (rule fl_le_of_int)
    then show ?thesis by (simp add: floor_le_iff)
  qed
qed

lemma bar_parser_shape:
  assumes "0 \<le> f" and "f \<le> 1" and "0 < w" and "w < 2 ^ 53"
  shows "bar_parser f w
           = replicate (nat \<lfloor>fl (f * of_int w)\<rfloor>) FULL_BLOCK
             @ replicate (nat w - nat \<lfloor>fl (f * of_int w)\<rfloor>) LIGHT_SHADE"
  using bar_width_bounds[OF assms]
  by (simp add: bar_parser_def Let_def py_repeat_single nat_diff_distrib)

text \<open>
  Claim C5, as stated: for every fraction \<open>f\<close> in \<open>[0, 1]\<close> and every width \<open>w > 0\<close>,
  \<open>bar_parser\<close> returns a string of length exactly \<open>w\<close> whose filled-block count equals
  \<open>floor(f * w)\<close>, the remaining positions holding the empty-block glyph.

  The count is \<open>int(percentage * max_width)\<close>, the truncation of the float product, and
  the float product can round up to the next integer. One second into a track of 46
  seconds \<open>update_bar\<close> passes the float \<open>1 / 46\<close>, which lies below the exact quotient,
  and the width 46: the exact product lies below 1, so its floor is 0, but the float
  product is 1 and the bar holds one filled block.
\<close>

theorem bar_parser_exact_floor_counterexample:
  "0 \<le> fl (1 / 46) \<and> fl (1 / 46) \<le> 1
   \<and> \<lfloor>fl (1 / 46) * 46\<rfloor> = 0
   \<and> bar_parser (fl (1 / 46)) 46 = replicate 1 FULL_BLOCK @ replicate 45 LIGHT_SHADE
   \<and> count_list (bar_parser (fl (1 / 46)) 46) FULL_BLOCK = 1
   \<and> count_list (bar_parser (fl (1 / 46)) 46) FULL_BLOCK \<noteq> nat \<lfloor>fl (1 / 46) * 46\<rfloor>"
proof -
  have f0: "0 \<le> fl (1 / 46)" by code_simp
  have f1: "fl (1 / 46) \<le> 1" by code_simp
  have ex: "\<lfloor>fl (1 / 46) * 46\<rfloor> = 0" by code_simp
  have fp: "\<lfloor>fl (fl (1 / 46) * of_int 46)\<rfloor> = 1" by code_simp
  have shape: "bar_parser (fl (1 / 46)) 46 = replicate 1 FULL_BLOCK @ replicate 45 LIGHT_SHADE"
    using bar_parser_shape[OF f0 f1, of 46] unfolding fp by simp
  have "count_list (replicate 1 FULL_BLOCK @ replicate 45 LIGHT_SHADE) FULL_BLOCK = 1"
    by (simp add: count_list_replicate FULL_BLOCK_def LIGHT_SHADE_def)
  with f0 f1 ex shape show ?thesis by simp
qed

text \<open>
  Claim C5, amended: for every fraction \<open>f\<close> in \<open>[0, 1]\<close> and every width \<open>w\<close> with
  \<open>0 < w < 2 ^ 53\<close>, \<open>bar_parser\<close> returns a string of length exactly \<open>w\<close>: first the
  filled-block glyph, as many times as the floor of the float product \<open>fl (f * w)\<close>, then
  the empty-block glyph in the remaining positions. That count is at most \<open>w\<close>, and it is
  \<open>floor(f * w)\<close> or \<open>floor(f * w) + 1\<close>.
\<close>

theorem bar_parser_length_and_fill:
  assumes "0 \<le> f" and "f \<le> 1" and "0 < w" and "w < 2 ^ 53"
  shows "length (bar_parser f w) = nat w
       \<and> bar_parser f w
           = replicate (nat \<lfloor>fl (f * of_int w)\<rfloor>) FULL_BLOCK
             @ replicate (nat w - nat \<lfloor>fl (f * of_int w)\<rfloor>) LIGHT_SHADE
       \<and> count_list (bar_parser f w) FULL_BLOCK = nat \<lfloor>fl (f * of_int w)\<rfloor>
       \<and> nat \<lfloor>fl (f * of_int w)\<rfloor> \<le> nat w
       \<and> \<lfloor>f * of_int w\<rfloor> \<le> \<lfloor>fl (f * of_int w)\<rfloor>
       \<and> \<lfloor>fl (f * of_int w)\<rfloor> \<le> \<lfloor>f * of_int w\<rfloor> + 1"
proof -
  define b where "b = \<lfloor>fl (f * of_int w)\<rfloor>"
  note bw = bar_width_bounds[OF assms, folded b_def]
  note eq = bar_parser_shape[OF assms, folded b_def]
  have x0: "0 \<le> f * of_int w" using assms(1,3) by simp
  have "f * of_int w \<le> 1 * of_int w" using assms(2,3) by (intro mult_right_mono) simp_all
  then have x1: "f * of_int w \<le> of_int w" by simp
  note fb = fl_floor_bounds[OF x0 x1 assms(4), folded b_def]
  show ?thesis
    unfolding b_def[symmetric] using bw eq fb
    by (simp add: count_list_replicate FULL_BLOCK_def LIGHT_SHADE_def)
qed

theorem bar_parser_length_and_fill_witness:
  "0 \<le> fl (1 / 46) \<and> fl (1 / 46) \<le> 1 \<and> (0::int) < 46 \<and> (46::int) < 2 ^ 53
   \<and> length (bar_parser (fl (1 / 46)) 46) = 46
   \<and> count_list (bar_parser (fl (1 / 46)) 46) FULL_BLOCK = 1"
proof -
  have f0: "0 \<le> fl (1 / 46)" by code_simp
  have f1: "fl (1 / 46) \<le> 1" by code_simp
  have fp: "\<lfloor>fl (fl (1 / 46) * of_int 46)\<rfloor> = 1" by code_simp
  from bar_parser_length_and_fill[OF f0 f1, of 46] have
    "length (bar_parser (fl (1 / 46)) 46) = 46
     \<and> count_list (bar_parser (fl (1 / 46)) 46) FULL_BLOCK = 1"
    unfolding fp by (simp add: count_list_replicate FULL_BLOCK_def LIGHT_SHADE_def)
  with f0 f1 show ?thesis by simp
qed

section \<open>Progress update\<close>

lemma fl_le_one: "0 \<le> x \<Longrightarrow> x \<le> 1 \<Longrightarrow> fl x \<le> 1"
  using fl_le_of_int[of x 1] by simp

lemma update_bar_eq:
  assumes "mutagen_length w (m_file st) = Inr len"
  shows "update_bar w st =
           (if py_int len = 0 then Inl ZeroDivisionError
            else Inr (bar_parser (fl (of_int (py_int (fl (of_int (mixer_get_pos w) / 1000)))
                                      / of_int (py_int len))) (int box_width)))"
  using assms by (simp add: update_bar_def py_then_def int_truediv_def Let_def)

lemma bar_parser_length:
  assumes "0 \<le> f" and "f \<le> 1" and "0 < w" and "w < 2 ^ 53"
  shows "length (bar_parser f w) = nat w"
  using bar_width_bounds[OF assms]
  by (simp add: bar_parser_def Let_def py_repeat_single nat_diff_distrib)

text \<open>
  Claim C1, as stated: for every periodic progress update (\<open>update_bar\<close>), if the track's
  total duration is 0 seconds then the progress fraction is treated as 0 and no
  division by zero occurs when computing the fraction.

  \<open>update_bar\<close> divides \<open>curr_time / total_time\<close> with no test of the divisor: for a track
  whose metadata gives length 0 the division raises \<open>ZeroDivisionError\<close> and no bar is
  returned.
\<close>

theorem update_bar_zero_duration_counterexample:
  "update_bar
     \<lparr>os_listdir = (\<lambda>d. Inr []), os_getcwd = [], random_source = 0,
      mixer_loadable = (\<lambda>f. True), mixer_get_busy = True, mixer_get_pos = 1500,
      mixer_get_volume = 1, mutagen_length = (\<lambda>f. Inr 0),
      os_get_terminal_size = \<lparr>columns = 80, lines = 24\<rparr>\<rparr>
     \<lparr>m_file = ascii ''a.mp3'', i_lines = (ascii ''a.mp3'', False) # i_lines_initial,
      effects = []\<rparr>
   = Inl ZeroDivisionError"
  by (simp add: update_bar_def py_then_def int_truediv_def Let_def py_int_def)

text \<open>
  Claim C1, amended: when the metadata gives a length, \<open>update_bar\<close> raises
  \<open>ZeroDivisionError\<close> whenever that length truncates to 0 seconds; when it truncates to
  a positive number of seconds and the elapsed whole seconds lie between 0 and it,
  \<open>update_bar\<close> returns the bar of \<open>box_width\<close> characters that \<open>bar_parser\<close> draws for the
  float quotient of the two.
\<close>

theorem update_bar_duration:
  assumes "mutagen_length w (m_file st) = Inr len"
  shows "(py_int len = 0 \<longrightarrow> update_bar w st = Inl ZeroDivisionError)
       \<and> (0 < py_int len \<and> 0 \<le> py_int (fl (of_int (mixer_get_pos w) / 1000))
            \<and> py_int (fl (of_int (mixer_get_pos w) / 1000)) \<le> py_int len \<longrightarrow>
            (\<exists>bar. update_bar w st = Inr bar \<and> length bar = box_width
               \<and> bar = bar_parser (fl (of_int (py_int (fl (of_int (mixer_get_pos w) / 1000)))
                                        / of_int (py_int len))) (int box_width)))"
proof (intro conjI impI)
  assume "py_int len = 0"
  then show "update_bar w st = Inl ZeroDivisionError"
    by (simp add: update_bar_eq[OF assms])
next
  define t where "t = py_int len"
  define c where "c = py_int (fl (of_int (mixer_get_pos w) / 1000))"
  assume "0 < py_int len \<and> 0 \<le> py_int (fl (of_int (mixer_get_pos w) / 1000))
            \<and> py_int (fl (of_int (mixer_get_pos w) / 1000)) \<le> py_int len"
  then have t: "0 < t" and c0: "0 \<le> c" and ct: "c \<le> t" by (simp_all add: t_def c_def)
  have x0: "(0::rat) \<le> of_int c / of_int t" using t c0 by simp
  have x1: "(of_int c :: rat) / of_int t \<le> 1" using t ct by simp
  have f0: "0 \<le> fl (of_int c / of_int t)" using x0 by (rule fl_nonneg)
  have f1: "fl (of_int c / of_int t) \<le> 1" using x0 x1 by (rule fl_le_one)
  have "length (bar_parser (fl (of_int c / of_int t)) (int box_width)) = nat (int box_width)"
    using f0 f1 by (intro bar_parser_length) (simp_all add: box_width_def)
  moreover have "update_bar w st = Inr (bar_parser (fl (of_int c / of_int t)) (int box_width))"
    using t by (simp add: update_bar_eq[OF assms] t_def c_def)
  ultimately show "\<exists>bar. update_bar w st = Inr bar \<and> length bar = box_width
               \<and> bar = bar_parser (fl (of_int (py_int (fl (of_int (mixer_get_pos w) / 1000)))
                                        / of_int (py_int len))) (int box_width)"
    by (simp add: t_def c_def)
qed

theorem update_bar_duration_witness:
  "update_bar
     \<lparr>os_listdir = (\<lambda>d. Inr []), os_getcwd = [], random_source = 0,
      mixer_loadable = (\<lambda>f. True), mixer_get_busy = True, mixer_get_pos = 1500,
      mixer_get_volume = 1, mutagen_length = (\<lambda>f. Inr (7 / 2)),
      os_get_terminal_size = \<lparr>columns = 80, lines = 24\<rparr>\<rparr>
     \<lparr>m_file = ascii ''a.mp3'', i_lines = (ascii ''a.mp3'', False) # i_lines_initial,
      effects = []\<rparr>
   = Inr (replicate 15 FULL_BLOCK @ replicate 31 LIGHT_SHADE)
   \<and> length (replicate 15 FULL_BLOCK @ replicate 31 LIGHT_SHADE) = box_width"
proof -
  let ?w = "\<lparr>os_listdir = (\<lambda>d. Inr []), os_getcwd = [], random_source = 0,
      mixer_loadable = (\<lambda>f. True), mixer_get_busy = True, mixer_get_pos = 1500,
      mixer_get_volume = 1, mutagen_length = (\<lambda>f. Inr (7 / 2)),
      os_get_terminal_size = \<lparr>columns = 80, lines = 24\<rparr>\<rparr>"
  let ?st = "\<lparr>m_file = ascii ''a.mp3'', i_lines = (ascii ''a.mp3'', False) # i_lines_initial,
      effects = []\<rparr>"
  have len: "mutagen_length ?w (m_file ?st) = Inr (7 / 2)" by simp
  have t: "py_int (7 / 2) = 3" by code_simp
  have c: "py_int (fl (3 / 2)) = 1" by code_simp
  have f0: "0 \<le> fl (1 / 3)" by code_simp
  have f1: "fl (1 / 3) \<le> 1" by code_simp
  have fp: "\<lfloor>fl (fl (1 / 3) * of_int 46)\<rfloor> = 15" by code_simp
  have bar: "bar_parser (fl (1 / 3)) 46
               = replicate 15 FULL_BLOCK @ replicate 31 LIGHT_SHADE"
    using bar_parser_shape[OF f0 f1, of 46] unfolding fp by simp
  from update_bar_duration[OF len] show ?thesis
    by (simp add: t c bar box_width_def)
qed

section \<open>Panel layout\<close>

lemma py_int_half:
  assumes "n < 2 ^ 53"
  shows "py_int (fl (of_nat n / 2)) = int (n div 2)"
proof -
  have "int n < 2 ^ 53" using assms by (simp add: of_nat_less_numeral_power_cancel_iff)
  then have b: "\<bar>int n\<bar> < 2 ^ 53" by simp
  have e: "(of_nat n :: rat) / 2 = of_int (int n) * 2 powi (- 1)"
    by (simp add: power_int_minus)
  have flq: "fl (of_nat n / 2) = of_nat n / 2"
    by (rule fl_exact[OF e b]) simp
  have fld: "\<lfloor>(of_nat n :: rat) / 2\<rfloor> = int (n div 2)"
    using floor_divide_of_nat_eq[of n 2, where ?'a = rat] by simp
  have nn: "(0::rat) \<le> of_nat n / 2" by simp
  show ?thesis by (simp only: py_int_def flq nn if_True fld)
qed

lemma interface_loop_eq:
  "interface_loop width lns string
     = string @ concat (map (\<lambda>tupl. interface_line width tupl @ [NEWLINE]) lns)"
  by (induction lns arbitrary: string) simp_all

lemma length_center: "length (center s w) = max (length s) (nat w)"
  by (auto simp: center_def Let_def)

lemma length_ljust: "length (ljust s w) = max (length s) (nat w)"
  by (auto simp: ljust_def)

lemma interface_line_short:
  assumes "length line \<le> min box_width width"
  shows "interface_line width (line, c)
           = center (if c then center line (int (min box_width width))
                     else ljust line (int (min box_width width))) (int width)"
proof -
  define m where "m = min box_width width"
  have "\<not> m < length line" using assms by (simp only: m_def not_less)
  then show ?thesis
    unfolding interface_line_def Let_def m_def[symmetric] by simp
qed

lemma interface_line_long:
  assumes "min box_width width < length line" and "3 \<le> width"
  shows "interface_line width (line, c)
           = center (take (min box_width width - 3) line @ term_marker) (int width)"
    and "length (take (min box_width width - 3) line @ term_marker) = min box_width width"
proof -
  define m where "m = min box_width width"
  have m3: "3 \<le> m" using assms(2) by (simp add: m_def box_width_def)
  have tl: "length term_marker = 3" by (simp add: term_marker_def ascii_def)
  have pre: "py_prefix line (int m - int (length term_marker)) = take (m - 3) line"
    using m3 by (simp add: py_prefix_def tl nat_diff_distrib)
  show len: "length (take (min box_width width - 3) line @ term_marker) = min box_width width"
    using assms(1) m3 unfolding m_def[symmetric] by (simp add: tl)
  have "center (take (m - 3) line @ term_marker) (int m) = take (m - 3) line @ term_marker"
    using len unfolding m_def[symmetric] by (simp add: center_def)
  moreover have "ljust (take (m - 3) line @ term_marker) (int m) = take (m - 3) line @ term_marker"
    using len unfolding m_def[symmetric] by (simp add: ljust_def)
  ultimately show "interface_line width (line, c)
           = center (take (min box_width width - 3) line @ term_marker) (int width)"
    using assms(1) unfolding m_def[symmetric]
    by (simp add: interface_line_def Let_def pre m_def[symmetric])
qed

lemma interface_line_length:
  assumes "3 \<le> width"
  shows "length (interface_line width tupl) = width"
proof (cases tupl)
  case (Pair line c)
  show ?thesis
  proof (cases "length line \<le> min box_width width")
    case True
    then show ?thesis unfolding Pair
      by (simp add: interface_line_short length_center length_ljust)
  next
    case False
    then have lt: "min box_width width < length line" by (simp only: not_le)
    show ?thesis unfolding Pair
      by (simp only: interface_line_long[OF lt assms] length_center)
  qed
qed

text \<open>
  Claim C10: for every line sequence and every terminal frame with positive dimensions,
  every body line of the string returned by \<open>interface\<close> has length exactly
  \<open>frame.columns\<close>, so the rendered panel never exceeds the terminal width.

  That holds from 3 columns on (\<open>interface_line_length\<close>). In a terminal of 1 or 2 columns
  the slice bound \<open>min(box_width, width) - len(term)\<close> is negative and counts from the end
  of the line: a title of 5 characters in 2 columns loses its last character only and
  gains the marker, a body line of 7 characters.
\<close>

theorem interface_narrow_terminal_overflow:
  "interface \<lparr>columns = 2, lines = 2\<rparr> [(ascii ''a.mp3'', False)]
     = [NEWLINE] @ ascii ''a.mp...'' @ [NEWLINE]
   \<and> length (ascii ''a.mp...'') = 7"
proof -
  have h: "py_int (fl (of_nat 2 / 2)) = 1" using py_int_half[of 2] by simp
  have l: "py_int (fl (of_nat 1 / 2)) = 0" using py_int_half[of 1] by simp
  have line: "interface_line 2 (ascii ''a.mp3'', False) = ascii ''a.mp...''"
    by (simp add: interface_line_def Let_def box_width_def term_marker_def ascii_def
          py_prefix_def center_def ljust_def)
  show ?thesis
    using h l by (simp add: interface_def Let_def line py_repeat_single) (simp add: ascii_def)
qed

text \<open>
  Claim C7, as stated: for every display line rendered by \<open>interface\<close>, the line's text is
  truncated with an ellipsis marker whenever its length exceeds
  \<open>min(box_width, terminal_width) - ellipsis_len\<close>; in particular a line of length 60
  with \<open>box_width = 46\<close> and ample terminal width is truncated so that it ends with the
  ellipsis marker and has total length at most 46.

  The test in the loop is \<open>line_len > min(box_width, width)\<close>: a line is cut only when it
  is longer than the box. A line of 45 characters in a terminal of 80 columns exceeds
  \<open>46 - 3\<close> and is drawn whole, with no marker.
\<close>

theorem interface_line_45_counterexample:
  "int (min box_width 80) - int (length term_marker) < int (length (replicate 45 (97::nat)))
   \<and> interface_line 80 (replicate 45 97, True)
       = replicate 17 SPACE @ replicate 45 97 @ replicate 18 SPACE
   \<and> \<not> suffix term_marker (replicate 45 97)"
proof -
  have "\<not> suffix term_marker (replicate 45 (97::nat))"
    by (auto dest: set_mono_suffix simp: term_marker_def ascii_def)
  moreover have "interface_line 80 (replicate 45 97, True)
       = replicate 17 SPACE @ replicate 45 97 @ replicate 18 SPACE"
    using replicate_Suc[of 17 SPACE]
    by (simp add: interface_line_def Let_def box_width_def center_def)
  moreover have "int (min box_width 80) - int (length term_marker)
                   < int (length (replicate 45 (97::nat)))"
    by (simp add: box_width_def term_marker_def ascii_def)
  ultimately show ?thesis by (simp only: simp_thms)
qed


text \<open>
  Claim C7, amended: for every display line rendered by \<open>interface\<close> in a terminal of at
  least 3 columns, the line's text is truncated with the ellipsis marker exactly when its
  length exceeds \<open>min(box_width, terminal_width)\<close>: a longer text is replaced by its first
  \<open>min(box_width, terminal_width) - 3\<close> characters followed by the marker, which has
  length \<open>min(box_width, terminal_width)\<close>, and a text no longer than that is padded
  whole. In particular a line of length 60 with \<open>box_width = 46\<close> and at least 46 columns
  becomes its first 43 characters followed by the marker, of total length 46.
\<close>

theorem interface_line_truncation:
  assumes "3 \<le> width"
  shows "(length line \<le> min box_width width \<longrightarrow>
            interface_line width (line, c)
              = center (if c then center line (int (min box_width width))
                        else ljust line (int (min box_width width))) (int width))
       \<and> (min box_width width < length line \<longrightarrow>
            interface_line width (line, c)
              = center (take (min box_width width - 3) line @ term_marker) (int width)
            \<and> length (take (min box_width width - 3) line @ term_marker)
                = min box_width width)
       \<and> (length line = 60 \<and> box_width \<le> width \<longrightarrow>
            interface_line width (line, c)
              = center (take 43 line @ term_marker) (int width)
            \<and> suffix term_marker (take 43 line @ term_marker)
            \<and> length (take 43 line @ term_marker) = 46)"
proof (intro conjI impI)
  assume "length line \<le> min box_width width"
  then show "interface_line width (line, c)
              = center (if c then center line (int (min box_width width))
                        else ljust line (int (min box_width width))) (int width)"
    by (rule interface_line_short)
next
  assume lt: "min box_width width < length line"
  show "interface_line width (line, c)
          = center (take (min box_width width - 3) line @ term_marker) (int width)"
    using lt assms by (rule interface_line_long(1))
  show "length (take (min box_width width - 3) line @ term_marker) = min box_width width"
    using lt assms by (rule interface_line_long(2))
next
  assume a: "length line = 60 \<and> box_width \<le> width"
  then have m: "min box_width width = 46" by (simp add: box_width_def)
  from a have lt: "min box_width width < length line" by (simp add: box_width_def)
  show "interface_line width (line, c) = center (take 43 line @ term_marker) (int width)"
    using interface_line_long(1)[OF lt assms, of c] by (simp add: m)
  show "suffix term_marker (take 43 line @ term_marker)" by (simp add: suffix_def)
  show "length (take 43 line @ term_marker) = 46"
    using interface_line_long(2)[OF lt assms] by (simp add: m)
qed

theorem interface_line_truncation_witness:
  "(3::nat) \<le> 80
   \<and> interface_line 80 (replicate 60 97, True)
       = replicate 17 SPACE @ replicate 43 97 @ ascii ''...'' @ replicate 17 SPACE
   \<and> interface_line 80 (replicate 46 97, True)
       = replicate 17 SPACE @ replicate 46 97 @ replicate 17 SPACE"
proof -
  have c1: "center (replicate 43 97 @ term_marker) 80
              = replicate 17 SPACE @ replicate 43 97 @ ascii ''...'' @ replicate 17 SPACE"
    by (simp add: center_def term_marker_def ascii_def)
  have c2: "center (center (replicate 46 97) 46) 80
              = replicate 17 SPACE @ replicate 46 97 @ replicate 17 SPACE"
    by (simp add: center_def)
  from interface_line_truncation[of 80 "replicate 60 97" True]
  have "interface_line 80 (replicate 60 97, True)
          = replicate 17 SPACE @ replicate 43 97 @ ascii ''...'' @ replicate 17 SPACE"
    by (simp add: box_width_def c1)
  moreover from interface_line_truncation[of 80 "replicate 46 97" True]
  have "interface_line 80 (replicate 46 97, True)
          = replicate 17 SPACE @ replicate 46 97 @ replicate 17 SPACE"
    by (simp add: box_width_def c2)
  ultimately show ?thesis by simp
qed

text \<open>
  Claim C8: for every line sequence and terminal frame, \<open>interface\<close> emits exactly
  \<open>floor(frame.lines / 2) - floor(len(lines) / 2)\<close> leading blank lines, with integer
  floor semantics for both halves, and the body lines follow; when \<open>len(lines)\<close> exceeds
  \<open>frame.lines\<close> the padding is zero blank lines, never a negative amount.

  Both halves are float quotients truncated by \<open>int\<close>; they are the integer floors for
  counts below \<open>2 ^ 53\<close>, which bounds every terminal height and every list length.
\<close>

theorem interface_vertical_padding:
  assumes "lines sz < 2 ^ 53" and "length lns < 2 ^ 53"
  shows "interface sz lns
           = replicate (nat (int (lines sz div 2) - int (length lns div 2))) NEWLINE
             @ concat (map (\<lambda>tupl. interface_line (columns sz) tupl @ [NEWLINE]) lns)
       \<and> (lines sz < length lns \<longrightarrow>
            nat (int (lines sz div 2) - int (length lns div 2)) = 0
            \<and> interface sz lns
                = concat (map (\<lambda>tupl. interface_line (columns sz) tupl @ [NEWLINE]) lns))"
proof -
  have eq: "interface sz lns
           = replicate (nat (int (lines sz div 2) - int (length lns div 2))) NEWLINE
             @ concat (map (\<lambda>tupl. interface_line (columns sz) tupl @ [NEWLINE]) lns)"
    by (simp add: interface_def Let_def py_int_half[OF assms(1)] py_int_half[OF assms(2)]
          py_repeat_single interface_loop_eq)
  have z: "nat (int (lines sz div 2) - int (length lns div 2)) = 0" if "lines sz < length lns"
  proof -
    from that have "lines sz div 2 \<le> length lns div 2" by (intro div_le_mono) simp
    then show ?thesis by simp
  qed
  show ?thesis using eq z by simp
qed

theorem interface_vertical_padding_witness:
  "(24::nat) < 2 ^ 53 \<and> length [([] :: pystr, True)] < 2 ^ 53
   \<and> interface \<lparr>columns = 4, lines = 24\<rparr> [([], True)]
       = replicate 12 NEWLINE @ replicate 4 SPACE @ [NEWLINE]
   \<and> interface \<lparr>columns = 4, lines = 1\<rparr> [([], True), ([], True), ([], True)]
       = replicate 4 SPACE @ [NEWLINE] @ replicate 4 SPACE @ [NEWLINE]
         @ replicate 4 SPACE @ [NEWLINE]"
proof -
  have l: "interface_line 4 ([], True) = replicate 4 SPACE"
    by (simp add: interface_line_def Let_def center_def box_width_def replicate_add[symmetric])
  from interface_vertical_padding[of "\<lparr>columns = 4, lines = 24\<rparr>" "[([], True)]"]
  have "interface \<lparr>columns = 4, lines = 24\<rparr> [([], True)]
          = replicate 12 NEWLINE @ replicate 4 SPACE @ [NEWLINE]"
    by (simp add: l)
  moreover
  from interface_vertical_padding[of "\<lparr>columns = 4, lines = 1\<rparr>"
         "[([], True), ([], True), ([], True)]"]
  have "interface \<lparr>columns = 4, lines = 1\<rparr> [([], True), ([], True), ([], True)]
       = replicate 4 SPACE @ [NEWLINE] @ replicate 4 SPACE @ [NEWLINE]
         @ replicate 4 SPACE @ [NEWLINE]"
    by (simp add: l)
  ultimately show ?thesis by simp
qed

section \<open>Transport symbol\<close>

lemma py_store_Inr: "py_store xs i v = Inr ys \<Longrightarrow> i < length xs \<and> ys = xs[i := v]"
  by (simp add: py_store_def split: if_splits)

lemma pause_symbol_eq:
  assumes "9 \<le> length ls"
  shows "pause_symbol ls
           = Inr (ls[6 := (take 10 (fst (ls ! 6)) @ paus1 @ drop 16 (fst (ls ! 6)), True),
                     7 := (take 10 (fst (ls ! 7)) @ paus2 @ drop 16 (fst (ls ! 7)), True),
                     8 := (take 10 (fst (ls ! 8)) @ paus3 @ drop 16 (fst (ls ! 8)), True)])"
  using assms by (simp add: pause_symbol_def py_then_def py_index_def py_store_def Let_def)

lemma play_symbol_eq:
  assumes "9 \<le> length ls"
  shows "play_symbol ls
           = Inr (ls[6 := (take 10 (fst (ls ! 6)) @ play1 @ drop 16 (fst (ls ! 6)), True),
                     7 := (take 10 (fst (ls ! 7)) @ play2 @ drop 16 (fst (ls ! 7)), True),
                     8 := (take 10 (fst (ls ! 8)) @ play3 @ drop 16 (fst (ls ! 8)), True)])"
  using assms by (simp add: play_symbol_def py_then_def py_index_def py_store_def Let_def)

lemma glyph_lengths:
  "length paus1 = 6" "length paus2 = 6" "length paus3 = 6"
  "length play1 = 6" "length play2 = 6" "length play3 = 6"
  by (simp_all add: paus1_def paus2_def paus3_def play1_def play2_def play3_def)

lemma panel_reachable_shape:
  assumes "panel_reachable ls"
  shows "length ls = 11
       \<and> length (fst (ls ! 6)) = 46 \<and> length (fst (ls ! 7)) = 46 \<and> length (fst (ls ! 8)) = 46
       \<and> snd (ls ! 6) \<and> snd (ls ! 7) \<and> snd (ls ! 8)"
  using assms
proof (induction rule: panel_reachable.induct)
  case (initial title)
  show ?case by (simp add: i_lines_initial_def)
next
  case (store0 ls v ls')
  from py_store_Inr[OF store0.hyps(2)] store0.IH show ?case by simp
next
  case (store2 ls v ls')
  from py_store_Inr[OF store2.hyps(2)] store2.IH show ?case by simp
next
  case (store4 ls v ls')
  from py_store_Inr[OF store4.hyps(2)] store4.IH show ?case by simp
next
  case (pause ls ls')
  then have "9 \<le> length ls" by simp
  from pause_symbol_eq[OF this] pause.hyps(2) pause.IH show ?case
    by (auto simp: glyph_lengths)
next
  case (play ls ls')
  then have "9 \<le> length ls" by simp
  from play_symbol_eq[OF this] play.hyps(2) play.IH show ?case
    by (auto simp: glyph_lengths)
qed

text \<open>
  Claim C9: for every state of the display-line sequence, applying the transport-symbol
  rewrite (\<open>pause_symbol\<close> or \<open>play_symbol\<close>) changes only columns 10..16 of the three
  glyph rows (slots 6-8): every other slot of the sequence is unchanged, and in those
  three rows the characters before column 10 and from column 16 onward are unchanged.

  The states are those the sequence takes in a run, \<open>panel_reachable\<close>: eleven slots, the
  three glyph rows 46 characters long and centred. On each of them both rewrites
  complete, keep the length of the sequence and of each row, and put their glyph in
  columns 10 to 15.
\<close>

theorem transport_symbol_frame:
  assumes "panel_reachable ls"
  shows "(\<exists>ls'. pause_symbol ls = Inr ls' \<and> length ls' = length ls
            \<and> (\<forall>i < length ls. i \<notin> {6, 7, 8} \<longrightarrow> ls' ! i = ls ! i)
            \<and> (\<forall>i \<in> {6, 7, 8}.
                  snd (ls' ! i) = snd (ls ! i)
                  \<and> length (fst (ls' ! i)) = length (fst (ls ! i))
                  \<and> take 10 (fst (ls' ! i)) = take 10 (fst (ls ! i))
                  \<and> drop 16 (fst (ls' ! i)) = drop 16 (fst (ls ! i)))
            \<and> map (\<lambda>i. take 6 (drop 10 (fst (ls' ! i)))) [6, 7, 8] = [paus1, paus2, paus3])
       \<and> (\<exists>ls'. play_symbol ls = Inr ls' \<and> length ls' = length ls
            \<and> (\<forall>i < length ls. i \<notin> {6, 7, 8} \<longrightarrow> ls' ! i = ls ! i)
            \<and> (\<forall>i \<in> {6, 7, 8}.
                  snd (ls' ! i) = snd (ls ! i)
                  \<and> length (fst (ls' ! i)) = length (fst (ls ! i))
                  \<and> take 10 (fst (ls' ! i)) = take 10 (fst (ls ! i))
                  \<and> drop 16 (fst (ls' ! i)) = drop 16 (fst (ls ! i)))
            \<and> map (\<lambda>i. take 6 (drop 10 (fst (ls' ! i)))) [6, 7, 8] = [play1, play2, play3])"
proof -
  note sh = panel_reachable_shape[OF assms]
  then have n: "9 \<le> length ls" by simp
  show ?thesis
    unfolding pause_symbol_eq[OF n] play_symbol_eq[OF n]
    using sh by (simp add: glyph_lengths nth_list_update)
qed

theorem transport_symbol_frame_witness:
  "panel_reachable ((ascii ''a.mp3'', False) # i_lines_initial)
   \<and> (\<exists>ls'. pause_symbol ((ascii ''a.mp3'', False) # i_lines_initial) = Inr ls'
          \<and> length ls' = 11
          \<and> ls' ! 0 = (ascii ''a.mp3'', False)
          \<and> take 10 (fst (ls' ! 6)) = [FULL_BLOCK, FULL_BLOCK, FULL_BLOCK, FULL_BLOCK, FULL_BLOCK, FULL_BLOCK,
               SPACE, SPACE, SPACE, SPACE]
          \<and> take 6 (drop 10 (fst (ls' ! 6))) = paus1)"
proof -
  let ?ls = "(ascii ''a.mp3'', False) # i_lines_initial"
  have r: "panel_reachable ?ls" by (rule panel_reachable.initial)
  have t: "take 10 (fst (?ls ! 6)) = [FULL_BLOCK, FULL_BLOCK, FULL_BLOCK, FULL_BLOCK, FULL_BLOCK, FULL_BLOCK,
               SPACE, SPACE, SPACE, SPACE]"
    by (simp add: i_lines_initial_def SPACE_def)
  have l: "length ?ls = 11" by (simp add: i_lines_initial_def)
  from transport_symbol_frame[OF r, THEN conjunct1] obtain ls' where
    P: "pause_symbol ?ls = Inr ls' \<and> length ls' = length ?ls
            \<and> (\<forall>i < length ?ls. i \<notin> {6, 7, 8} \<longrightarrow> ls' ! i = ?ls ! i)
            \<and> (\<forall>i \<in> {6, 7, 8}.
                  snd (ls' ! i) = snd (?ls ! i)
                  \<and> length (fst (ls' ! i)) = length (fst (?ls ! i))
                  \<and> take 10 (fst (ls' ! i)) = take 10 (fst (?ls ! i))
                  \<and> drop 16 (fst (ls' ! i)) = drop 16 (fst (?ls ! i)))
            \<and> map (\<lambda>i. take 6 (drop 10 (fst (ls' ! i)))) [6, 7, 8] = [paus1, paus2, paus3]" ..
  note p1 = P[THEN conjunct1]
  note p2 = P[THEN conjunct2, THEN conjunct1]
  note p3 = P[THEN conjunct2, THEN conjunct2, THEN conjunct1, rule_format, of 0]
  note p4 = P[THEN conjunct2, THEN conjunct2, THEN conjunct2, THEN conjunct1, rule_format, of 6]
  note p5 = P[THEN conjunct2, THEN conjunct2, THEN conjunct2, THEN conjunct2]
  have a: "ls' ! 0 = (ascii ''a.mp3'', False)" using p3 by (simp add: l)
  have b: "take 10 (fst (ls' ! 6)) = take 10 (fst (?ls ! 6))" using p4 by simp
  have c: "take 6 (drop 10 (fst (ls' ! 6))) = paus1" using p5 by simp
  have "pause_symbol ?ls = Inr ls' \<and> length ls' = 11
          \<and> ls' ! 0 = (ascii ''a.mp3'', False)
          \<and> take 10 (fst (ls' ! 6)) = [FULL_BLOCK, FULL_BLOCK, FULL_BLOCK, FULL_BLOCK, FULL_BLOCK, FULL_BLOCK,
               SPACE, SPACE, SPACE, SPACE]
          \<and> take 6 (drop 10 (fst (ls' ! 6))) = paus1"
    using p1 p2 a b c t l by simp
  then have "\<exists>ls'. pause_symbol ?ls = Inr ls' \<and> length ls' = 11
          \<and> ls' ! 0 = (ascii ''a.mp3'', False)
          \<and> take 10 (fst (ls' ! 6)) = [FULL_BLOCK, FULL_BLOCK, FULL_BLOCK, FULL_BLOCK, FULL_BLOCK, FULL_BLOCK,
               SPACE, SPACE, SPACE, SPACE]
          \<and> take 6 (drop 10 (fst (ls' ! 6))) = paus1" by (rule exI)
  with r show ?thesis by (rule conjI)
qed

section \<open>Track selection\<close>

lemma music_files_loop_filter:
  "music_files_loop old files acc
     = acc @ filter (\<lambda>file. (suffix (ascii ''.mp3'') file \<or> suffix (ascii ''.wav'') file
                               \<or> suffix (ascii ''.ogg'') file) \<and> file \<noteq> old) files"
  by (induction files arbitrary: acc) simp_all

lemma split_sep_nonempty: "split_sep c xs \<noteq> []"
  by (induction xs) (auto split: list.splits)

lemma split_sep_no_sep: "c \<notin> set xs \<Longrightarrow> split_sep c xs = [xs]"
  by (induction xs) auto

lemma split_sep_append:
  "split_sep c (a @ c # b) = split_sep c a @ split_sep c b"
proof (induction a)
  case Nil
  show ?case by simp
next
  case (Cons x a)
  obtain w ws where s: "split_sep c a = w # ws"
    using split_sep_nonempty[of c a] by (cases "split_sep c a") auto
  show ?case using Cons s by simp
qed

lemma last_split_sep_append:
  assumes "c \<notin> set b"
  shows "last (split_sep c (a @ c # b)) = b"
  by (simp add: split_sep_append split_sep_no_sep[OF assms])

lemma strip_path_join:
  assumes "SLASH \<notin> set b" and "b \<noteq> []"
  shows "strip_path_from_filename (os_path_join a b) = b"
proof -
  have hd: "hd b \<noteq> SLASH" using assms by (cases b) auto
  show ?thesis
  proof (cases "a = []")
    case True
    then show ?thesis using hd assms by (simp add: os_path_join_def strip_path_from_filename_def)
  next
    case False
    show ?thesis
    proof (cases "last a = SLASH")
      case True
      with False have a: "a = butlast a @ [SLASH]" by (metis append_butlast_last_id)
      have "os_path_join a b = butlast a @ SLASH # b"
        using hd assms True by (simp add: os_path_join_def) (metis a append.assoc append_Cons append_Nil)
      then show ?thesis
        using assms(1) by (simp add: strip_path_from_filename_def last_split_sep_append)
    next
      case l: False
      have "os_path_join a b = a @ SLASH # b"
        using hd assms l False by (simp add: os_path_join_def)
      then show ?thesis
        using assms(1) by (simp add: strip_path_from_filename_def last_split_sep_append)
    qed
  qed
qed

lemma suffix_join:
  assumes "suffix e b" and "b \<noteq> []" and "hd b \<noteq> SLASH"
  shows "suffix e (os_path_join a b)"
  using assms by (auto simp: os_path_join_def suffix_def)


lemma random_file_eq:
  assumes "os_listdir w (strip_filename_from_path (os_getcwd w) path) = Inr files"
  shows "random_file w path
           = (let music_files = music_files_loop (strip_path_from_filename path) files []
              in if music_files = [] then Inl PygameError
                 else Inr (os_path_join (strip_filename_from_path (os_getcwd w) path)
                             (music_files ! (random_source w mod length music_files))))"
  using assms by (simp add: random_file_def py_then_def random_choice_def Let_def)

text \<open>
  Claim C3: for every input path, \<open>random_file\<close> never returns the excluded current file
  and never returns a file whose extension is outside the three allowed ones; whenever
  the filtered candidate list is empty, as in a directory that holds the current file
  only, it raises \<open>pygame.error\<close>, the spec's \<open>NotFoundError\<close>, instead of returning a path.

  The directory listing succeeds and gives file names, which hold no \<open>/\<close>. A returned
  path is the directory joined with a listed name that ends in an allowed extension and
  differs from the current file's name; it is that name again once its directory is
  stripped, so it is not the current path.
\<close>

theorem random_file_selection:
  assumes "os_listdir w (strip_filename_from_path (os_getcwd w) path) = Inr files"
      and "\<forall>file \<in> set files. SLASH \<notin> set file"
  shows "(music_files_loop (strip_path_from_filename path) files [] = [] \<longrightarrow>
            random_file w path = Inl PygameError)
       \<and> (files = [strip_path_from_filename path] \<longrightarrow> random_file w path = Inl PygameError)
       \<and> (music_files_loop (strip_path_from_filename path) files [] \<noteq> [] \<longrightarrow>
            (\<exists>chosen \<in> set files.
               random_file w path
                 = Inr (os_path_join (strip_filename_from_path (os_getcwd w) path) chosen)
               \<and> strip_path_from_filename
                     (os_path_join (strip_filename_from_path (os_getcwd w) path) chosen) = chosen
               \<and> chosen \<noteq> strip_path_from_filename path
               \<and> os_path_join (strip_filename_from_path (os_getcwd w) path) chosen \<noteq> path
               \<and> (suffix (ascii ''.mp3'') chosen \<or> suffix (ascii ''.wav'') chosen
                    \<or> suffix (ascii ''.ogg'') chosen)
               \<and> (suffix (ascii ''.mp3'')
                      (os_path_join (strip_filename_from_path (os_getcwd w) path) chosen)
                    \<or> suffix (ascii ''.wav'')
                      (os_path_join (strip_filename_from_path (os_getcwd w) path) chosen)
                    \<or> suffix (ascii ''.ogg'')
                      (os_path_join (strip_filename_from_path (os_getcwd w) path) chosen))))"
proof (intro conjI impI)
  assume "music_files_loop (strip_path_from_filename path) files [] = []"
  then show "random_file w path = Inl PygameError"
    by (simp add: random_file_eq[OF assms(1)])
next
  assume "files = [strip_path_from_filename path]"
  then have "music_files_loop (strip_path_from_filename path) files [] = []" by simp
  then show "random_file w path = Inl PygameError"
    by (simp add: random_file_eq[OF assms(1)])
next
  define old where "old = strip_path_from_filename path"
  define dir where "dir = strip_filename_from_path (os_getcwd w) path"
  define mf where "mf = music_files_loop old files []"
  define chosen where "chosen = mf ! (random_source w mod length mf)"
  assume "music_files_loop (strip_path_from_filename path) files [] \<noteq> []"
  then have ne: "mf \<noteq> []" by (simp add: mf_def old_def)
  then have "chosen \<in> set mf" by (simp add: chosen_def)
  then have sel: "chosen \<in> set files"
    and ext: "suffix (ascii ''.mp3'') chosen \<or> suffix (ascii ''.wav'') chosen
              \<or> suffix (ascii ''.ogg'') chosen"
    and neq: "chosen \<noteq> old"
    by (simp_all add: mf_def music_files_loop_filter)
  from sel assms(2) have ns: "SLASH \<notin> set chosen" by simp
  from ext have cne: "chosen \<noteq> []" by (auto simp: ascii_def)
  from ns cne have hd: "hd chosen \<noteq> SLASH" by (cases chosen) auto
  have res: "random_file w path = Inr (os_path_join dir chosen)"
    using ne by (simp add: random_file_eq[OF assms(1)] Let_def mf_def old_def dir_def chosen_def)
  have strip: "strip_path_from_filename (os_path_join dir chosen) = chosen"
    using ns cne by (rule strip_path_join)
  have diff: "os_path_join dir chosen \<noteq> path"
  proof
    assume "os_path_join dir chosen = path"
    then have "strip_path_from_filename (os_path_join dir chosen) = old" by (simp add: old_def)
    with strip neq show False by simp
  qed
  have extp: "suffix (ascii ''.mp3'') (os_path_join dir chosen)
            \<or> suffix (ascii ''.wav'') (os_path_join dir chosen)
            \<or> suffix (ascii ''.ogg'') (os_path_join dir chosen)"
    using ext suffix_join[OF _ cne hd] by blast
  show "\<exists>chosen \<in> set files.
               random_file w path
                 = Inr (os_path_join (strip_filename_from_path (os_getcwd w) path) chosen)
               \<and> strip_path_from_filename
                     (os_path_join (strip_filename_from_path (os_getcwd w) path) chosen) = chosen
               \<and> chosen \<noteq> strip_path_from_filename path
               \<and> os_path_join (strip_filename_from_path (os_getcwd w) path) chosen \<noteq> path
               \<and> (suffix (ascii ''.mp3'') chosen \<or> suffix (ascii ''.wav'') chosen
                    \<or> suffix (ascii ''.ogg'') chosen)
               \<and> (suffix (ascii ''.mp3'')
                      (os_path_join (strip_filename_from_path (os_getcwd w) path) chosen)
                    \<or> suffix (ascii ''.wav'')
                      (os_path_join (strip_filename_from_path (os_getcwd w) path) chosen)
                    \<or> suffix (ascii ''.ogg'')
                      (os_path_join (strip_filename_from_path (os_getcwd w) path) chosen))"
    using sel res strip neq diff ext extp unfolding old_def dir_def by (intro bexI[of _ chosen]) simp_all
qed


theorem random_file_selection_witness:
  "random_file
     \<lparr>os_listdir = (\<lambda>d. if d = ascii ''music/''
                         then Inr [ascii ''a.mp3'', ascii ''b.ogg'', ascii ''notes.txt'']
                         else Inl OSError),
      os_getcwd = ascii ''/home'', random_source = 0,
      mixer_loadable = (\<lambda>f. True), mixer_get_busy = True, mixer_get_pos = 0,
      mixer_get_volume = 1, mutagen_length = (\<lambda>f. Inr 60),
      os_get_terminal_size = \<lparr>columns = 80, lines = 24\<rparr>\<rparr>
     (ascii ''music/a.mp3'')
   = Inr (ascii ''music/b.ogg'')
   \<and> random_file
     \<lparr>os_listdir = (\<lambda>d. if d = ascii ''music/'' then Inr [ascii ''a.mp3''] else Inl OSError),
      os_getcwd = ascii ''/home'', random_source = 0,
      mixer_loadable = (\<lambda>f. True), mixer_get_busy = True, mixer_get_pos = 0,
      mixer_get_volume = 1, mutagen_length = (\<lambda>f. Inr 60),
      os_get_terminal_size = \<lparr>columns = 80, lines = 24\<rparr>\<rparr>
     (ascii ''music/a.mp3'')
   = Inl PygameError"
proof -
  let ?w = "\<lparr>os_listdir = (\<lambda>d. if d = ascii ''music/''
                         then Inr [ascii ''a.mp3'', ascii ''b.ogg'', ascii ''notes.txt'']
                         else Inl OSError),
      os_getcwd = ascii ''/home'', random_source = 0,
      mixer_loadable = (\<lambda>f. True), mixer_get_busy = True, mixer_get_pos = 0,
      mixer_get_volume = 1, mutagen_length = (\<lambda>f. Inr 60),
      os_get_terminal_size = \<lparr>columns = 80, lines = 24\<rparr>\<rparr>"
  let ?w1 = "\<lparr>os_listdir = (\<lambda>d. if d = ascii ''music/'' then Inr [ascii ''a.mp3''] else Inl OSError),
      os_getcwd = ascii ''/home'', random_source = 0,
      mixer_loadable = (\<lambda>f. True), mixer_get_busy = True, mixer_get_pos = 0,
      mixer_get_volume = 1, mutagen_length = (\<lambda>f. Inr 60),
      os_get_terminal_size = \<lparr>columns = 80, lines = 24\<rparr>\<rparr>"
  let ?p = "ascii ''music/a.mp3''"
  have dir: "strip_filename_from_path (ascii ''/home'') ?p = ascii ''music/''"
    by (simp add: strip_filename_from_path_def ascii_def SLASH_def Let_def)
  have old: "strip_path_from_filename ?p = ascii ''a.mp3''"
    by (simp add: strip_path_from_filename_def ascii_def SLASH_def)
  have ls: "os_listdir ?w (strip_filename_from_path (os_getcwd ?w) ?p)
              = Inr [ascii ''a.mp3'', ascii ''b.ogg'', ascii ''notes.txt'']"
    by (simp add: dir)
  have ls1: "os_listdir ?w1 (strip_filename_from_path (os_getcwd ?w1) ?p) = Inr [ascii ''a.mp3'']"
    by (simp add: dir)
  have ns: "\<forall>file \<in> set [ascii ''a.mp3'', ascii ''b.ogg'', ascii ''notes.txt'']. SLASH \<notin> set file"
    by (simp add: ascii_def SLASH_def)
  have ns1: "\<forall>file \<in> set [ascii ''a.mp3'']. SLASH \<notin> set file"
    by (simp add: ascii_def SLASH_def)
  have mf: "music_files_loop (ascii ''a.mp3'')
              [ascii ''a.mp3'', ascii ''b.ogg'', ascii ''notes.txt''] [] = [ascii ''b.ogg'']"
    by (simp add: ascii_def suffix_to_prefix)
  have j: "os_path_join (ascii ''music/'') (ascii ''b.ogg'') = ascii ''music/b.ogg''"
    by (simp add: os_path_join_def ascii_def SLASH_def)
  have ne: "music_files_loop (strip_path_from_filename ?p)
              [ascii ''a.mp3'', ascii ''b.ogg'', ascii ''notes.txt''] [] \<noteq> []"
    by (simp only: old mf) simp
  from random_file_selection[OF ls ns, THEN conjunct2, THEN conjunct2, THEN mp, OF ne]
  obtain chosen where
    c: "chosen \<in> set [ascii ''a.mp3'', ascii ''b.ogg'', ascii ''notes.txt'']" and
    P: "random_file ?w ?p
                 = Inr (os_path_join (strip_filename_from_path (os_getcwd ?w) ?p) chosen)
               \<and> strip_path_from_filename
                     (os_path_join (strip_filename_from_path (os_getcwd ?w) ?p) chosen) = chosen
               \<and> chosen \<noteq> strip_path_from_filename ?p
               \<and> os_path_join (strip_filename_from_path (os_getcwd ?w) ?p) chosen \<noteq> ?p
               \<and> (suffix (ascii ''.mp3'') chosen \<or> suffix (ascii ''.wav'') chosen
                    \<or> suffix (ascii ''.ogg'') chosen)
               \<and> (suffix (ascii ''.mp3'')
                      (os_path_join (strip_filename_from_path (os_getcwd ?w) ?p) chosen)
                    \<or> suffix (ascii ''.wav'')
                      (os_path_join (strip_filename_from_path (os_getcwd ?w) ?p) chosen)
                    \<or> suffix (ascii ''.ogg'')
                      (os_path_join (strip_filename_from_path (os_getcwd ?w) ?p) chosen))" ..
  have res: "random_file ?w ?p = Inr (os_path_join (ascii ''music/'') chosen)"
    using P[THEN conjunct1] by (simp add: dir)
  have n: "chosen \<noteq> ascii ''a.mp3''"
    using P[THEN conjunct2, THEN conjunct2, THEN conjunct1] unfolding old .
  note e = P[THEN conjunct2, THEN conjunct2, THEN conjunct2, THEN conjunct2, THEN conjunct1]
  have nx: "\<not> (suffix (ascii ''.mp3'') (ascii ''notes.txt'')
               \<or> suffix (ascii ''.wav'') (ascii ''notes.txt'')
               \<or> suffix (ascii ''.ogg'') (ascii ''notes.txt''))"
    by (simp add: ascii_def suffix_to_prefix)
  from c have "chosen = ascii ''a.mp3'' \<or> chosen = ascii ''b.ogg'' \<or> chosen = ascii ''notes.txt''"
    by simp
  with n e nx have "chosen = ascii ''b.ogg''" by blast
  with res have a: "random_file ?w ?p = Inr (ascii ''music/b.ogg'')" by (simp only: j)
  from random_file_selection[OF ls1 ns1, THEN conjunct2, THEN conjunct1]
  have b: "random_file ?w1 ?p = Inl PygameError"
    by (simp add: old)
  from a b show ?thesis by (rule conjI)
qed

section \<open>Recovery when no other track is found\<close>

lemma play_random_file_not_found:
  assumes "random_file w (m_file st) = Inl e"
  shows "play_random_file w st = (Inl e, st)"
  using assms by (simp add: play_random_file_def assign_random_file_def)

lemma assign_line_frame:
  assumes "assign_line k rhs flag st = (r, st')"
  shows "effects st' = effects st \<and> m_file st' = m_file st"
  using assms by (auto simp: assign_line_def split: sum.splits)

lemma call_symbol_frame:
  assumes "call_symbol f st = (r, st')"
  shows "effects st' = effects st \<and> m_file st' = m_file st"
  using assms by (auto simp: call_symbol_def split: sum.splits)

lemma refresh_frame:
  assumes "run_all [assign_line 2 (update_bar w) True,
                    assign_line 4 (update_song_info w) True,
                    call_symbol pause_symbol,
                    call_redraw w] st = (r, st')"
  shows "m_file st' = m_file st
       \<and> (\<exists>rest. effects st' = effects st @ rest
              \<and> (rest = [] \<or> (\<exists>s. rest = [Clear, Print s])))"
proof -
  obtain r1 s1 where a1: "assign_line 2 (update_bar w) True st = (r1, s1)" by (cases "assign_line 2 (update_bar w) True st")
  obtain r2 s2 where a2: "assign_line 4 (update_song_info w) True s1 = (r2, s2)" by (cases "assign_line 4 (update_song_info w) True s1")
  obtain r3 s3 where a3: "call_symbol pause_symbol s2 = (r3, s3)" by (cases "call_symbol pause_symbol s2")
  note f1 = assign_line_frame[OF a1]
  note f2 = assign_line_frame[OF a2]
  note f3 = call_symbol_frame[OF a3]
  show ?thesis
    using assms a1 a2 a3 f1 f2 f3
    by (auto simp: call_redraw_def redraw_def emit_def split: sum.splits)
qed

text \<open>
  Claim C4: when the sibling pick raises \<open>pygame.error\<close>, the spec's \<open>NotFoundError\<close>, the
  two call sites recover differently. The page-down handler rewinds the current track
  and, if the mixer is not busy, unpauses it (and then refreshes the panel); the
  end-of-track handler does nothing at all: no rewind, the player state is unchanged.
\<close>

theorem not_found_recoveries:
  assumes "random_file w (m_file st) = Inl PygameError"
  shows "on_track_end w st = (Inr (), st)
       \<and> (mixer_get_busy w \<longrightarrow> on_page_down w st = (Inr (), emit MusicRewind st))
       \<and> (\<not> mixer_get_busy w \<longrightarrow>
            (\<exists>r st' rest. on_page_down w st = (r, st')
               \<and> m_file st' = m_file st
               \<and> effects st' = effects st @ [MusicRewind, MusicUnpause] @ rest
               \<and> (rest = [] \<or> (\<exists>s. rest = [Clear, Print s]))))"
proof (intro conjI impI)
  note p = play_random_file_not_found[OF assms]
  show "on_track_end w st = (Inr (), st)" by (simp add: on_track_end_def p)
  {
    assume "mixer_get_busy w"
    then show "on_page_down w st = (Inr (), emit MusicRewind st)"
      by (simp add: on_page_down_def p music_call_def)
  }
  {
    assume nb: "\<not> mixer_get_busy w"
    define st2 where "st2 = emit MusicUnpause (emit MusicRewind st)"
    obtain r st' where t: "run_all [assign_line 2 (update_bar w) True,
                    assign_line 4 (update_song_info w) True,
                    call_symbol pause_symbol,
                    call_redraw w] st2 = (r, st')"
      by (cases "run_all [assign_line 2 (update_bar w) True,
                    assign_line 4 (update_song_info w) True,
                    call_symbol pause_symbol,
                    call_redraw w] st2")
    from refresh_frame[OF t] obtain rest where
      m: "m_file st' = m_file st2" and
      e: "effects st' = effects st2 @ rest" and
      d: "rest = [] \<or> (\<exists>s. rest = [Clear, Print s])" by blast
    have "on_page_down w st = (r, st')"
      using nb t by (simp add: on_page_down_def p music_call_def st2_def)
    moreover have "m_file st' = m_file st" using m by (simp add: st2_def emit_def)
    moreover have "effects st' = effects st @ [MusicRewind, MusicUnpause] @ rest"
      using e by (simp add: st2_def emit_def)
    ultimately show "\<exists>r st' rest. on_page_down w st = (r, st')
               \<and> m_file st' = m_file st
               \<and> effects st' = effects st @ [MusicRewind, MusicUnpause] @ rest
               \<and> (rest = [] \<or> (\<exists>s. rest = [Clear, Print s]))"
      using d by blast
  }
qed

theorem not_found_recoveries_witness:
  "on_track_end
     \<lparr>os_listdir = (\<lambda>d. Inr [ascii ''a.mp3'']),
      os_getcwd = ascii ''/home'', random_source = 0,
      mixer_loadable = (\<lambda>f. True), mixer_get_busy = True, mixer_get_pos = 0,
      mixer_get_volume = 1, mutagen_length = (\<lambda>f. Inr 60),
      os_get_terminal_size = \<lparr>columns = 80, lines = 24\<rparr>\<rparr>
     \<lparr>m_file = ascii ''a.mp3'', i_lines = (ascii ''a.mp3'', False) # i_lines_initial,
      effects = []\<rparr>
   = (Inr (), \<lparr>m_file = ascii ''a.mp3'', i_lines = (ascii ''a.mp3'', False) # i_lines_initial,
      effects = []\<rparr>)
   \<and> on_page_down
     \<lparr>os_listdir = (\<lambda>d. Inr [ascii ''a.mp3'']),
      os_getcwd = ascii ''/home'', random_source = 0,
      mixer_loadable = (\<lambda>f. True), mixer_get_busy = True, mixer_get_pos = 0,
      mixer_get_volume = 1, mutagen_length = (\<lambda>f. Inr 60),
      os_get_terminal_size = \<lparr>columns = 80, lines = 24\<rparr>\<rparr>
     \<lparr>m_file = ascii ''a.mp3'', i_lines = (ascii ''a.mp3'', False) # i_lines_initial,
      effects = []\<rparr>
   = (Inr (), \<lparr>m_file = ascii ''a.mp3'', i_lines = (ascii ''a.mp3'', False) # i_lines_initial,
      effects = [MusicRewind]\<rparr>)"
proof -
  let ?w = "\<lparr>os_listdir = (\<lambda>d. Inr [ascii ''a.mp3'']),
      os_getcwd = ascii ''/home'', random_source = 0,
      mixer_loadable = (\<lambda>f. True), mixer_get_busy = True, mixer_get_pos = 0,
      mixer_get_volume = 1, mutagen_length = (\<lambda>f. Inr 60),
      os_get_terminal_size = \<lparr>columns = 80, lines = 24\<rparr>\<rparr>"
  let ?st = "\<lparr>m_file = ascii ''a.mp3'', i_lines = (ascii ''a.mp3'', False) # i_lines_initial,
      effects = []\<rparr>"
  have old: "strip_path_from_filename (ascii ''a.mp3'') = ascii ''a.mp3''"
    by (simp add: strip_path_from_filename_def ascii_def SLASH_def)
  have nf: "random_file ?w (m_file ?st) = Inl PygameError"
    by (simp add: random_file_def py_then_def random_choice_def Let_def old)
  from not_found_recoveries[OF nf] show ?thesis
    by (simp add: emit_def)
qed

end
